theory Spec2Isabelle
  imports Main "HOL-Library.AList"
begin

section \<open>Values, objects and the store\<close>

text \<open>
  The option-merging module works on JavaScript objects that are shared and mutated
  in place, so objects live in a store and values refer to them by address. Numbers
  are the integers (the module only tests them for truthiness and uses them as
  lengths and indices); the members of the built-in prototypes are not part of the
  store, so a field name is assumed not to be the name of such a member.
\<close>

type_synonym addr = nat

datatype val = Undefined | Null | Bool bool | Num int | Str string | Ref addr

text \<open>
  A function object is either a function supplied by the caller (known only by an
  identifier) or one of the two closures that \<open>mergeDataOrFn\<close> creates, with the
  variables it captures.
\<close>

datatype fbody =
    Native nat
  | MergedDataFn val val
  | MergedInstanceDataFn val val val

datatype okind = Plain | Array "val list" | Function fbody

record obj =
  okind :: okind
  proto :: "addr option"
  props :: "(string \<times> val) list"

datatype warning =
    WarnInstanceOnly string
  | WarnDataNotFunction
  | WarnReservedComponent string
  | WarnPropsArraySyntax
  | WarnInvalidOption string string
  | WarnResolveFailed string string

record state =
  heap :: "obj list"
  warnings :: "warning list"
  registered :: "(val \<times> string \<times> val) list"

datatype error = TypeError | OutOfFuel | OutOfModel

type_synonym 'a js = "state \<Rightarrow> error + ('a \<times> state)"

definition ret :: "'a \<Rightarrow> 'a js" where
  "ret x = (\<lambda>st. Inr (x, st))"

definition throw :: "error \<Rightarrow> 'a js" where
  "throw e = (\<lambda>st. Inl e)"

definition andThen :: "'a js \<Rightarrow> ('a \<Rightarrow> 'b js) \<Rightarrow> 'b js" where
  "andThen m f = (\<lambda>st. case m st of Inl e \<Rightarrow> Inl e | Inr (x, st') \<Rightarrow> f x st')"

primrec forEach :: "'a list \<Rightarrow> ('a \<Rightarrow> unit js) \<Rightarrow> unit js" where
  "forEach [] f = ret ()"
| "forEach (x # xs) f = andThen (f x) (\<lambda>_. forEach xs f)"

subsection \<open>Property keys\<close>

definition digit_char :: "nat \<Rightarrow> char" where
  "digit_char d = char_of (48 + d)"

fun key_of_index :: "nat \<Rightarrow> string" where
  "key_of_index n = (if n < 10 then [digit_char n]
     else key_of_index (n div 10) @ [digit_char (n mod 10)])"

definition is_digit :: "char \<Rightarrow> bool" where
  "is_digit c = (48 \<le> (of_char c :: nat) \<and> (of_char c :: nat) \<le> 57)"

definition index_of_key :: "string \<Rightarrow> nat option" where
  "index_of_key s =
     (if s \<noteq> [] \<and> list_all is_digit s \<and> (s = ''0'' \<or> hd s \<noteq> CHR ''0'')
      then Some (foldl (\<lambda>acc c. 10 * acc + (of_char c - 48)) 0 s) else None)"

subsection \<open>Reading objects\<close>

definition empty_obj :: obj where
  "empty_obj = \<lparr>okind = Plain, proto = None, props = []\<rparr>"

text \<open>
  An address outside the store does not occur in a state built by JavaScript.
  Reading or writing a property of such a reference is outside the model (the
  result \<open>OutOfModel\<close>); the tests on values see it as an object without properties.
\<close>

definition obj_at :: "obj list \<Rightarrow> addr \<Rightarrow> obj" where
  "obj_at h a = (if a < length h then h ! a else empty_obj)"

definition own_get :: "obj \<Rightarrow> string \<Rightarrow> val option" where
  "own_get ob k =
     (case okind ob of
        Array xs \<Rightarrow>
          (if k = ''length'' then Some (Num (int (length xs)))
           else (case index_of_key k of
                   Some i \<Rightarrow> if i < length xs then Some (xs ! i) else map_of (props ob) k
                 | None \<Rightarrow> map_of (props ob) k))
      | _ \<Rightarrow> map_of (props ob) k)"

definition own_keys :: "obj \<Rightarrow> string list" where
  "own_keys ob =
     (case okind ob of
        Array xs \<Rightarrow> map key_of_index [0..<length xs] @ map fst (props ob)
      | _ \<Rightarrow> map fst (props ob))"

text \<open>
  The prototype of an object is always allocated before the object (\<open>Object.create\<close>
  is the only way this module links one), so the chain is followed towards smaller
  addresses.
\<close>

function chain_get :: "obj list \<Rightarrow> addr \<Rightarrow> string \<Rightarrow> val" where
  "chain_get h a k =
     (case own_get (obj_at h a) k of
        Some v \<Rightarrow> v
      | None \<Rightarrow>
          (case proto (obj_at h a) of
             Some p \<Rightarrow> if p < a then chain_get h p k else Undefined
           | None \<Rightarrow> Undefined))"
  by pat_completeness auto
termination
  by (relation "measure (\<lambda>(h, a, k). a)") auto

function chain_keys :: "obj list \<Rightarrow> addr \<Rightarrow> string list" where
  "chain_keys h a =
     (let own = own_keys (obj_at h a) in
      case proto (obj_at h a) of
        Some p \<Rightarrow>
          if p < a then own @ filter (\<lambda>k. k \<notin> set own) (chain_keys h p) else own
      | None \<Rightarrow> own)"
  by pat_completeness auto
termination
  by (relation "measure (\<lambda>(h, a). a)") auto

declare key_of_index.simps [simp del] chain_get.simps [simp del] chain_keys.simps [simp del]

subsection \<open>Tests on values\<close>

fun truthy :: "val \<Rightarrow> bool" where
  "truthy Undefined = False"
| "truthy Null = False"
| "truthy (Bool b) = b"
| "truthy (Num n) = (n \<noteq> 0)"
| "truthy (Str s) = (s \<noteq> [])"
| "truthy (Ref a) = True"

definition isArray :: "state \<Rightarrow> val \<Rightarrow> bool" where
  "isArray st v =
     (case v of
        Ref a \<Rightarrow> (case okind (obj_at (heap st) a) of Array xs \<Rightarrow> True | _ \<Rightarrow> False)
      | _ \<Rightarrow> False)"

definition isFunction :: "state \<Rightarrow> val \<Rightarrow> bool" where
  "isFunction st v =
     (case v of
        Ref a \<Rightarrow> (case okind (obj_at (heap st) a) of Function b \<Rightarrow> True | _ \<Rightarrow> False)
      | _ \<Rightarrow> False)"


text \<open>
  Modelled from the spec: \<open>isPlainObject\<close> is imported from \<open>shared/util\<close>, which is
  not among the sources. A plain mapping is an object that is neither a sequence nor
  a callable.
\<close>

definition isPlainObject :: "state \<Rightarrow> val \<Rightarrow> bool" where
  "isPlainObject st v =
     (case v of
        Ref a \<Rightarrow> (case okind (obj_at (heap st) a) of Plain \<Rightarrow> True | _ \<Rightarrow> False)
      | _ \<Rightarrow> False)"

definition elems :: "state \<Rightarrow> val \<Rightarrow> val list" where
  "elems st v =
     (case v of
        Ref a \<Rightarrow> (case okind (obj_at (heap st) a) of Array xs \<Rightarrow> xs | _ \<Rightarrow> [])
      | _ \<Rightarrow> [])"

text \<open>
  Modelled from the spec: \<open>toRawType\<close> is imported from \<open>shared/util\<close>; it names the
  kind of a value in a diagnostic.
\<close>

definition toRawType :: "state \<Rightarrow> val \<Rightarrow> string" where
  "toRawType st v =
     (case v of
        Undefined \<Rightarrow> ''Undefined''
      | Null \<Rightarrow> ''Null''
      | Bool b \<Rightarrow> ''Boolean''
      | Num n \<Rightarrow> ''Number''
      | Str s \<Rightarrow> ''String''
      | Ref a \<Rightarrow>
          (case okind (obj_at (heap st) a) of
             Plain \<Rightarrow> ''Object'' | Array xs \<Rightarrow> ''Array'' | Function b \<Rightarrow> ''Function''))"

subsection \<open>Property access\<close>

definition str_get :: "string \<Rightarrow> string \<Rightarrow> val" where
  "str_get s k =
     (if k = ''length'' then Num (int (length s))
      else (case index_of_key k of
              Some i \<Rightarrow> if i < length s then Str [s ! i] else Undefined
            | None \<Rightarrow> Undefined))"

text \<open>\<open>v[k]\<close>: reading a property of \<open>undefined\<close> or \<open>null\<close> throws.\<close>

definition get :: "val \<Rightarrow> string \<Rightarrow> val js" where
  "get v k = (\<lambda>st.
     case v of
       Undefined \<Rightarrow> Inl TypeError
     | Null \<Rightarrow> Inl TypeError
     | Bool b \<Rightarrow> Inr (Undefined, st)
     | Num n \<Rightarrow> Inr (Undefined, st)
     | Str s \<Rightarrow> Inr (str_get s k, st)
     | Ref a \<Rightarrow>
         if a < length (heap st) then Inr (chain_get (heap st) a k, st) else Inl OutOfModel)"

definition getIndex :: "val \<Rightarrow> nat \<Rightarrow> val js" where
  "getIndex v i = get v (key_of_index i)"

text \<open>
  Modelled from the spec: \<open>hasOwn\<close> is imported from \<open>shared/util\<close>; it tests own
  presence of a key with \<open>Object.prototype.hasOwnProperty\<close>, which throws on
  \<open>undefined\<close> and \<open>null\<close>.
\<close>

definition hasOwn :: "val \<Rightarrow> string \<Rightarrow> bool js" where
  "hasOwn v k = (\<lambda>st.
     case v of
       Undefined \<Rightarrow> Inl TypeError
     | Null \<Rightarrow> Inl TypeError
     | Bool b \<Rightarrow> Inr (False, st)
     | Num n \<Rightarrow> Inr (False, st)
     | Str s \<Rightarrow> Inr (str_get s k \<noteq> Undefined, st)
     | Ref a \<Rightarrow>
         if a < length (heap st) then Inr (own_get (obj_at (heap st) a) k \<noteq> None, st)
         else Inl OutOfModel)"

text \<open>The keys a \<open>for (key in v)\<close> loop visits, in order.\<close>

definition forInKeys :: "state \<Rightarrow> val \<Rightarrow> string list" where
  "forInKeys st v =
     (case v of
        Ref a \<Rightarrow> chain_keys (heap st) a
      | Str s \<Rightarrow> map key_of_index [0..<length s]
      | _ \<Rightarrow> [])"

text \<open>\<open>Object.keys(v)\<close>: the own enumerable keys.\<close>

definition objectKeys :: "val \<Rightarrow> string list js" where
  "objectKeys v = (\<lambda>st.
     case v of
       Undefined \<Rightarrow> Inl TypeError
     | Null \<Rightarrow> Inl TypeError
     | Ref a \<Rightarrow>
         if a < length (heap st) then Inr (own_keys (obj_at (heap st) a), st)
         else Inl OutOfModel
     | Str s \<Rightarrow> Inr (map key_of_index [0..<length s], st)
     | _ \<Rightarrow> Inr ([], st))"

subsection \<open>Writing and allocating\<close>

text \<open>
  An assignment to a key creates or replaces an own property. An array grows by one
  element at most; an assignment that would leave a hole, or that sets \<open>length\<close>, is
  outside the model.
\<close>

definition set_own :: "obj \<Rightarrow> string \<Rightarrow> val \<Rightarrow> obj option" where
  "set_own ob k v =
     (case okind ob of
        Array xs \<Rightarrow>
          (if k = ''length'' then None
           else (case index_of_key k of
                   Some i \<Rightarrow>
                     if i < length xs then Some (ob\<lparr>okind := Array (xs[i := v])\<rparr>)
                     else if i = length xs then Some (ob\<lparr>okind := Array (xs @ [v])\<rparr>)
                     else None
                 | None \<Rightarrow> Some (ob\<lparr>props := AList.update k v (props ob)\<rparr>)))
      | _ \<Rightarrow> Some (ob\<lparr>props := AList.update k v (props ob)\<rparr>))"

text \<open>
  \<open>target[k] = v\<close>. The module is an ES module, hence strict code: assigning to a
  property of a primitive throws, as it does on \<open>undefined\<close> and \<open>null\<close>.
\<close>

definition put :: "val \<Rightarrow> string \<Rightarrow> val \<Rightarrow> unit js" where
  "put target k v = (\<lambda>st.
     case target of
       Ref a \<Rightarrow>
         (if a < length (heap st) then
            (case set_own (heap st ! a) k v of
               None \<Rightarrow> Inl OutOfModel
             | Some ob \<Rightarrow> Inr ((), st\<lparr>heap := (heap st)[a := ob]\<rparr>))
          else Inl OutOfModel)
     | _ \<Rightarrow> Inl TypeError)"

definition alloc :: "obj \<Rightarrow> val js" where
  "alloc ob = (\<lambda>st. Inr (Ref (length (heap st)), st\<lparr>heap := heap st @ [ob]\<rparr>))"

definition plain_obj :: "(string \<times> val) list \<Rightarrow> obj" where
  "plain_obj ps = \<lparr>okind = Plain, proto = None, props = ps\<rparr>"

definition array_obj :: "val list \<Rightarrow> obj" where
  "array_obj xs = \<lparr>okind = Array xs, proto = None, props = []\<rparr>"

definition function_obj :: "fbody \<Rightarrow> obj" where
  "function_obj b = \<lparr>okind = Function b, proto = None, props = []\<rparr>"

text \<open>\<open>Object.create(p)\<close> accepts an object or \<open>null\<close> only.\<close>

definition objectCreate :: "val \<Rightarrow> val js" where
  "objectCreate p =
     (case p of
        Null \<Rightarrow> alloc (plain_obj [])
      | Ref a \<Rightarrow> alloc \<lparr>okind = Plain, proto = Some a, props = []\<rparr>
      | _ \<Rightarrow> throw TypeError)"

definition orNull :: "val \<Rightarrow> val" where
  "orNull v = (if truthy v then v else Null)"

text \<open>
  \<open>p.concat(c)\<close>. An array yields a new array, with the elements of \<open>c\<close> spread
  when \<open>c\<close> is an array. A value without a \<open>concat\<close> member throws; the \<open>concat\<close> of a
  string, or one that an object defines itself, is outside the model.
\<close>

definition concat_js :: "val \<Rightarrow> val \<Rightarrow> val js" where
  "concat_js p c = (\<lambda>st.
     case p of
       Ref a \<Rightarrow>
         (case okind (obj_at (heap st) a) of
            Array xs \<Rightarrow> alloc (array_obj (xs @ (if isArray st c then elems st c else [c]))) st
          | _ \<Rightarrow>
              if isFunction st (chain_get (heap st) a ''concat'') then Inl OutOfModel
              else Inl TypeError)
     | Str s \<Rightarrow> Inl OutOfModel
     | _ \<Rightarrow> Inl TypeError)"

subsection \<open>Collaborators\<close>

text \<open>
  Modelled from the spec: \<open>warn\<close> is imported from \<open>./debug\<close>; a diagnostic goes to a
  side channel and nothing else happens.
\<close>

definition warn :: "warning \<Rightarrow> unit js" where
  "warn w = (\<lambda>st. Inr ((), st\<lparr>warnings := warnings st @ [w]\<rparr>))"

text \<open>
  Modelled from the spec: \<open>set\<close> is imported from \<open>../observer/index\<close>, the reactive
  registration. It installs the key/value pair onto the target, and the registration
  is recorded so that it can be counted.
\<close>

definition set_js :: "val \<Rightarrow> string \<Rightarrow> val \<Rightarrow> unit js" where
  "set_js target k v =
     andThen (put target k v)
       (\<lambda>_ st. Inr ((), st\<lparr>registered := registered st @ [(target, k, v)]\<rparr>))"

text \<open>
  Modelled from the spec: \<open>extend\<close> is imported from \<open>shared/util\<close>; it copies every
  enumerable entry of the second operand onto the first and returns the first.
\<close>

definition extend_js :: "val \<Rightarrow> val \<Rightarrow> val js" where
  "extend_js to from = (\<lambda>st.
     andThen
       (forEach (forInKeys st from) (\<lambda>key. andThen (get from key) (\<lambda>v. put to key v)))
       (\<lambda>_. ret to) st)"

section \<open>Merge strategies\<close>

subsection \<open>Lifecycle hooks\<close>

definition mergeHook :: "val \<Rightarrow> val \<Rightarrow> val js" where
  "mergeHook parentVal childVal = (\<lambda>st.
     if truthy childVal then
       (if truthy parentVal then concat_js parentVal childVal st
        else if isArray st childVal then Inr (childVal, st)
        else alloc (array_obj [childVal]) st)
     else Inr (parentVal, st))"

subsection \<open>The environment of the module\<close>

text \<open>
  What the module imports and the sources do not define is a parameter: the build
  flag \<open>process.env.NODE_ENV === 'production'\<close>, the two constant lists of
  \<open>shared/constants\<close>, the platform's \<open>Object.prototype.watch\<close> (\<open>undefined\<close> outside
  Firefox), the two tag predicates, and what a function supplied by the caller does
  when it is called with a receiver.
\<close>

record env =
  production :: bool
  LIFECYCLE_HOOKS :: "string list"
  ASSET_TYPES :: "string list"
  nativeWatch :: val
  isBuiltInTag :: "string \<Rightarrow> bool"
  isReservedTag :: "string \<Rightarrow> bool"
  native :: "nat \<Rightarrow> val \<Rightarrow> val js"

subsection \<open>Data and provide\<close>

text \<open>
  \<open>mergeData\<close> recurses into nested objects of the store; the first argument bounds
  the depth of that recursion.
\<close>

fun mergeData :: "nat \<Rightarrow> val \<Rightarrow> val \<Rightarrow> val js" where
  "mergeData 0 to from = throw OutOfFuel"
| "mergeData (Suc n) to from =
     (if \<not> truthy from then ret to
      else
        andThen (objectKeys from) (\<lambda>keys.
        andThen
          (forEach keys (\<lambda>key.
             andThen (get to key) (\<lambda>toVal.
             andThen (get from key) (\<lambda>fromVal.
             andThen (hasOwn to key) (\<lambda>own.
               if \<not> own then set_js to key fromVal
               else (\<lambda>st.
                 if isPlainObject st toVal \<and> isPlainObject st fromVal
                 then andThen (mergeData n toVal fromVal) (\<lambda>_. ret ()) st
                 else ret () st))))))
          (\<lambda>_. ret to)))"

definition mergeDataOrFn :: "val \<Rightarrow> val \<Rightarrow> val \<Rightarrow> val js" where
  "mergeDataOrFn parentVal childVal vm =
     (if \<not> truthy vm then
        (if \<not> truthy childVal then ret parentVal
         else if \<not> truthy parentVal then ret childVal
         else alloc (function_obj (MergedDataFn parentVal childVal)))
      else if truthy parentVal \<or> truthy childVal then
        alloc (function_obj (MergedInstanceDataFn parentVal childVal vm))
      else ret Undefined)"

text \<open>
  Calling a function object with a receiver: a caller's function does what the
  environment says, and the two closures of \<open>mergeDataOrFn\<close> run their bodies.
\<close>

fun call :: "nat \<Rightarrow> env \<Rightarrow> val \<Rightarrow> val \<Rightarrow> val js" where
  "call 0 E f this = throw OutOfFuel"
| "call (Suc n) E f this = (\<lambda>st.
     case f of
       Ref a \<Rightarrow>
         (case okind (obj_at (heap st) a) of
            Function (Native i) \<Rightarrow> native E i this st
          | Function (MergedDataFn parentVal childVal) \<Rightarrow>
              andThen
                (\<lambda>s. if isFunction s childVal then call n E childVal this s
                      else ret childVal s) (\<lambda>to.
              andThen
                (\<lambda>s. if isFunction s parentVal then call n E parentVal this s
                      else ret parentVal s) (\<lambda>from.
              mergeData n to from)) st
          | Function (MergedInstanceDataFn parentVal childVal vm) \<Rightarrow>
              andThen
                (\<lambda>s. if isFunction s childVal then call n E childVal vm s
                      else ret childVal s) (\<lambda>instanceData.
              andThen
                (\<lambda>s. if isFunction s parentVal then call n E parentVal vm s
                      else ret parentVal s) (\<lambda>defaultData.
              if truthy instanceData then mergeData n instanceData defaultData
              else ret defaultData)) st
          | _ \<Rightarrow> Inl TypeError)
     | _ \<Rightarrow> Inl TypeError)"

definition strats_data :: "env \<Rightarrow> val \<Rightarrow> val \<Rightarrow> val \<Rightarrow> val js" where
  "strats_data E parentVal childVal vm = (\<lambda>st.
     if \<not> truthy vm then
       (if truthy childVal \<and> \<not> isFunction st childVal then
          andThen (if production E then ret () else warn WarnDataNotFunction)
            (\<lambda>_. ret parentVal) st
        else mergeDataOrFn parentVal childVal Undefined st)
     else mergeDataOrFn parentVal childVal vm st)"

subsection \<open>Assets, watchers and object hashes\<close>

definition assertObjectType :: "string \<Rightarrow> val \<Rightarrow> val \<Rightarrow> unit js" where
  "assertObjectType name v vm = (\<lambda>st.
     if \<not> isPlainObject st v then warn (WarnInvalidOption name (toRawType st v)) st
     else ret () st)"

definition mergeAssets :: "env \<Rightarrow> val \<Rightarrow> val \<Rightarrow> val \<Rightarrow> string \<Rightarrow> val js" where
  "mergeAssets E parentVal childVal vm key =
     andThen (objectCreate (orNull parentVal)) (\<lambda>res.
       if truthy childVal then
         andThen (if production E then ret () else assertObjectType key childVal vm)
           (\<lambda>_. extend_js res childVal)
       else ret res)"

definition strats_watch :: "env \<Rightarrow> val \<Rightarrow> val \<Rightarrow> val \<Rightarrow> string \<Rightarrow> val js" where
  "strats_watch E parentVal0 childVal0 vm key =
     (let parentVal = (if parentVal0 = nativeWatch E then Undefined else parentVal0);
          childVal = (if childVal0 = nativeWatch E then Undefined else childVal0)
      in
      if \<not> truthy childVal then objectCreate (orNull parentVal)
      else
        andThen (if production E then ret () else assertObjectType key childVal vm) (\<lambda>_.
        if \<not> truthy parentVal then ret childVal
        else
          andThen (alloc (plain_obj [])) (\<lambda>res.
          andThen (extend_js res parentVal) (\<lambda>_.
          andThen
            (\<lambda>st. forEach (forInKeys st childVal) (\<lambda>k.
               andThen (get res k) (\<lambda>parent0.
               andThen (get childVal k) (\<lambda>child.
               andThen
                 (\<lambda>s. if truthy parent0 \<and> \<not> isArray s parent0
                       then alloc (array_obj [parent0]) s else ret parent0 s) (\<lambda>parent.
               andThen
                 (if truthy parent then concat_js parent child
                  else (\<lambda>s. if isArray s child then ret child s
                             else alloc (array_obj [child]) s))
                 (\<lambda>v. put res k v))))) st)
            (\<lambda>_. ret res)))))"

definition strats_object :: "env \<Rightarrow> val \<Rightarrow> val \<Rightarrow> val \<Rightarrow> string \<Rightarrow> val js" where
  "strats_object E parentVal childVal vm key =
     andThen
       (if truthy childVal \<and> \<not> production E then assertObjectType key childVal vm
        else ret ()) (\<lambda>_.
     if \<not> truthy parentVal then ret childVal
     else
       andThen (objectCreate Null) (\<lambda>res.
       andThen (extend_js res parentVal) (\<lambda>_.
       andThen (if truthy childVal then extend_js res childVal else ret res) (\<lambda>_.
       ret res))))"

subsection \<open>Default strategy and the strategy table\<close>

definition defaultStrat :: "val \<Rightarrow> val \<Rightarrow> val" where
  "defaultStrat parentVal childVal = (if childVal = Undefined then parentVal else childVal)"

definition strats_el :: "val \<Rightarrow> val \<Rightarrow> val \<Rightarrow> string \<Rightarrow> val js" where
  "strats_el parent child vm key =
     andThen (if \<not> truthy vm then warn (WarnInstanceOnly key) else ret ())
       (\<lambda>_. ret (defaultStrat parent child))"

text \<open>
  \<open>strats[key] || defaultStrat\<close>. The table holds the entries this module registers;
  a later registration replaces an earlier one for the same key, so the entries are
  tested from the last registered to the first.
\<close>

definition strat :: "env \<Rightarrow> string \<Rightarrow> val \<Rightarrow> val \<Rightarrow> val \<Rightarrow> val js" where
  "strat E key parentVal childVal vm =
     (if key = ''provide'' then mergeDataOrFn parentVal childVal vm
      else if key \<in> {''props'', ''methods'', ''inject'', ''computed''}
        then strats_object E parentVal childVal vm key
      else if key = ''watch'' then strats_watch E parentVal childVal vm key
      else if key \<in> List.set (map (\<lambda>t. t @ ''s'') (ASSET_TYPES E))
        then mergeAssets E parentVal childVal vm key
      else if key \<in> List.set (LIFECYCLE_HOOKS E) then mergeHook parentVal childVal
      else if key = ''data'' then strats_data E parentVal childVal vm
      else if \<not> production E \<and> (key = ''el'' \<or> key = ''propsData'')
        then strats_el parentVal childVal vm key
      else ret (defaultStrat parentVal childVal))"

section \<open>Normalization\<close>

subsection \<open>Names\<close>

definition is_lower :: "char \<Rightarrow> bool" where
  "is_lower c = (97 \<le> (of_char c :: nat) \<and> (of_char c :: nat) \<le> 122)"

definition is_upper :: "char \<Rightarrow> bool" where
  "is_upper c = (65 \<le> (of_char c :: nat) \<and> (of_char c :: nat) \<le> 90)"

definition is_word :: "char \<Rightarrow> bool" where
  "is_word c = (is_lower c \<or> is_upper c \<or> is_digit c \<or> c = CHR ''_'')"

definition toUpper :: "char \<Rightarrow> char" where
  "toUpper c = (if is_lower c then char_of ((of_char c :: nat) - 32) else c)"

definition toLower :: "char \<Rightarrow> char" where
  "toLower c = (if is_upper c then char_of ((of_char c :: nat) + 32) else c)"

text \<open>
  Modelled from the spec: \<open>camelize\<close> and \<open>capitalize\<close> are imported from
  \<open>shared/util\<close>. Camel-casing drops each hyphen that stands before a word character
  and puts that character in upper case; capitalizing puts the first character in
  upper case. Letters are the ASCII letters.
\<close>

fun camelize :: "string \<Rightarrow> string" where
  "camelize (c # d # cs) =
     (if c = CHR ''-'' \<and> is_word d then toUpper d # camelize cs
      else c # camelize (d # cs))"
| "camelize cs = cs"

fun capitalize :: "string \<Rightarrow> string" where
  "capitalize (c # cs) = toUpper c # cs"
| "capitalize [] = []"

definition toLowerCase :: "string \<Rightarrow> string" where
  "toLowerCase s = map toLower s"

text \<open>
  The property key that a value denotes in \<open>o[v]\<close>; the key an object denotes
  depends on its \<open>toString\<close> and is outside the model.
\<close>

definition toKey :: "val \<Rightarrow> string option" where
  "toKey v =
     (case v of
        Str s \<Rightarrow> Some s
      | Num n \<Rightarrow>
          Some (if 0 \<le> n then key_of_index (nat n) else CHR ''-'' # key_of_index (nat (- n)))
      | Undefined \<Rightarrow> Some ''undefined''
      | Null \<Rightarrow> Some ''null''
      | Bool b \<Rightarrow> Some (if b then ''true'' else ''false'')
      | Ref a \<Rightarrow> None)"

subsection \<open>The passes\<close>

definition checkComponents :: "env \<Rightarrow> val \<Rightarrow> unit js" where
  "checkComponents E options =
     andThen (get options ''components'') (\<lambda>components st.
       forEach (forInKeys st components) (\<lambda>key.
         let lower = toLowerCase key in
         if isBuiltInTag E lower \<or> isReservedTag E lower
         then warn (WarnReservedComponent key) else ret ()) st)"

definition normalizeProps :: "env \<Rightarrow> val \<Rightarrow> val \<Rightarrow> unit js" where
  "normalizeProps E options vm =
     andThen (get options ''props'') (\<lambda>props.
     if \<not> truthy props then ret ()
     else
       andThen (alloc (plain_obj [])) (\<lambda>res.
       andThen
         (\<lambda>st.
            if isArray st props then
              forEach (rev [0..<length (elems st props)]) (\<lambda>i.
                andThen (getIndex props i) (\<lambda>v.
                  case v of
                    Str name \<Rightarrow>
                      andThen (alloc (plain_obj [(''type'', Null)]))
                        (\<lambda>d. put res (camelize name) d)
                  | _ \<Rightarrow> if production E then ret () else warn WarnPropsArraySyntax)) st
            else if isPlainObject st props then
              forEach (forInKeys st props) (\<lambda>key.
                andThen (get props key) (\<lambda>v.
                andThen
                  (\<lambda>s. if isPlainObject s v then ret v s
                        else alloc (plain_obj [(''type'', v)]) s)
                  (\<lambda>d. put res (camelize key) d))) st
            else if \<not> production E \<and> truthy props then
              warn (WarnInvalidOption ''props'' (toRawType st props)) st
            else ret () st)
         (\<lambda>_. put options ''props'' res)))"

definition normalizeInject :: "env \<Rightarrow> val \<Rightarrow> val \<Rightarrow> unit js" where
  "normalizeInject E options vm =
     andThen (get options ''inject'') (\<lambda>inject.
     andThen (alloc (plain_obj [])) (\<lambda>normalized.
     andThen (put options ''inject'' normalized) (\<lambda>_ st.
       if isArray st inject then
         forEach [0..<length (elems st inject)] (\<lambda>i.
           andThen (getIndex inject i) (\<lambda>name.
           case toKey name of
             None \<Rightarrow> throw OutOfModel
           | Some k \<Rightarrow>
               andThen (getIndex inject i) (\<lambda>src.
               andThen (alloc (plain_obj [(''from'', src)])) (\<lambda>d.
               put normalized k d)))) st
       else if isPlainObject st inject then
         forEach (forInKeys st inject) (\<lambda>key.
           andThen (get inject key) (\<lambda>v.
           andThen
             (\<lambda>s. if isPlainObject s v
                   then andThen (alloc (plain_obj [(''from'', Str key)]))
                          (\<lambda>d. extend_js d v) s
                   else alloc (plain_obj [(''from'', v)]) s)
             (\<lambda>d. put normalized key d))) st
       else if \<not> production E \<and> truthy inject then
         warn (WarnInvalidOption ''inject'' (toRawType st inject)) st
       else ret () st)))"

definition normalizeDirectives :: "val \<Rightarrow> unit js" where
  "normalizeDirectives options =
     andThen (get options ''directives'') (\<lambda>dirs.
     if truthy dirs then
       (\<lambda>st. forEach (forInKeys st dirs) (\<lambda>key.
          andThen (get dirs key) (\<lambda>def s.
            if isFunction s def then
              andThen (alloc (plain_obj [(''bind'', def), (''update'', def)]))
                (\<lambda>d. put dirs key d) s
            else ret () s)) st)
     else ret ())"

section \<open>The merge engine\<close>

definition mergeField :: "env \<Rightarrow> val \<Rightarrow> val \<Rightarrow> val \<Rightarrow> val \<Rightarrow> string \<Rightarrow> unit js" where
  "mergeField E options parent child vm key =
     andThen (get parent key) (\<lambda>parentVal.
     andThen (get child key) (\<lambda>childVal.
     andThen (strat E key parentVal childVal vm) (\<lambda>v.
     put options key v)))"

text \<open>
  The last part of \<open>mergeOptions\<close>, which builds the result: a new object, one
  \<open>mergeField\<close> for every key of the parent, then one for every key of the child
  that the parent does not own.
\<close>

definition buildOptions :: "env \<Rightarrow> val \<Rightarrow> val \<Rightarrow> val \<Rightarrow> val js" where
  "buildOptions E parent child vm =
     andThen (alloc (plain_obj [])) (\<lambda>options.
     andThen
       (\<lambda>st. forEach (forInKeys st parent) (mergeField E options parent child vm) st)
       (\<lambda>_.
     andThen
       (\<lambda>st. forEach (forInKeys st child) (\<lambda>key.
          andThen (hasOwn parent key) (\<lambda>own.
            if \<not> own then mergeField E options parent child vm key else ret ())) st)
       (\<lambda>_.
     ret options)))"

text \<open>
  The bound of the mixin loop, \<open>i < l\<close> for \<open>l = child.mixins.length\<close>: a number counts,
  \<open>undefined\<close> compares false, \<open>null\<close> and booleans convert to 0 and 1; a string or an
  object as the length is outside the model.
\<close>

definition loopBound :: "val \<Rightarrow> nat option" where
  "loopBound l =
     (case l of
        Num k \<Rightarrow> Some (nat k)
      | Undefined \<Rightarrow> Some 0
      | Null \<Rightarrow> Some 0
      | Bool b \<Rightarrow> Some (if b then 1 else 0)
      | _ \<Rightarrow> None)"

text \<open>
  \<open>mergeOptions\<close> calls itself on the base configuration and on every mixin; the
  declarations may form a cycle in the store, so the first argument bounds the depth
  of the calls, and running out of it is the result \<open>OutOfFuel\<close>. \<open>mergeMixins\<close> is
  the loop over the indices of \<open>child.mixins\<close>.
\<close>

fun mergeOptions :: "nat \<Rightarrow> env \<Rightarrow> val \<Rightarrow> val \<Rightarrow> val \<Rightarrow> val js"
  and mergeMixins :: "nat \<Rightarrow> env \<Rightarrow> val \<Rightarrow> val \<Rightarrow> val \<Rightarrow> nat list \<Rightarrow> val js"
where
  "mergeOptions 0 E parent child0 vm = throw OutOfFuel"
| "mergeOptions (Suc n) E parent child0 vm =
     andThen (if production E then ret () else checkComponents E child0) (\<lambda>_.
     andThen
       (\<lambda>st. if isFunction st child0 then get child0 ''options'' st else ret child0 st)
       (\<lambda>child.
     andThen (normalizeProps E child vm) (\<lambda>_.
     andThen (normalizeInject E child vm) (\<lambda>_.
     andThen (normalizeDirectives child) (\<lambda>_.
     andThen (get child ''extends'') (\<lambda>extendsFrom.
     andThen
       (if truthy extendsFrom then mergeOptions n E parent extendsFrom vm else ret parent)
       (\<lambda>parent1.
     andThen (get child ''mixins'') (\<lambda>mixins.
     andThen
       (if truthy mixins then
          andThen (get mixins ''length'') (\<lambda>l.
            case loopBound l of
              None \<Rightarrow> throw OutOfModel
            | Some k \<Rightarrow> mergeMixins n E parent1 child vm [0..<k])
        else ret parent1)
       (\<lambda>parent2.
     buildOptions E parent2 child vm)))))))))"
| "mergeMixins 0 E parent child vm is = throw OutOfFuel"
| "mergeMixins (Suc n) E parent child vm [] = ret parent"
| "mergeMixins (Suc n) E parent child vm (i # is) =
     andThen (get child ''mixins'') (\<lambda>mixins.
     andThen (getIndex mixins i) (\<lambda>mixin.
     andThen (mergeOptions n E parent mixin vm) (\<lambda>parent'.
     mergeMixins (Suc n) E parent' child vm is)))"

section \<open>Asset resolution\<close>

definition resolveAsset :: "env \<Rightarrow> val \<Rightarrow> string \<Rightarrow> val \<Rightarrow> val \<Rightarrow> val js" where
  "resolveAsset E options type ident warnMissing =
     (case ident of
        Str name \<Rightarrow>
          andThen (get options type) (\<lambda>assets.
          andThen (hasOwn assets name) (\<lambda>own1.
          if own1 then get assets name
          else
            let camelizedId = camelize name in
            andThen (hasOwn assets camelizedId) (\<lambda>own2.
            if own2 then get assets camelizedId
            else
              let PascalCaseId = capitalize camelizedId in
              andThen (hasOwn assets PascalCaseId) (\<lambda>own3.
              if own3 then get assets PascalCaseId
              else
                andThen (get assets name) (\<lambda>r1.
                andThen (if truthy r1 then ret r1 else get assets camelizedId) (\<lambda>r2.
                andThen (if truthy r2 then ret r2 else get assets PascalCaseId) (\<lambda>res.
                andThen
                  (if \<not> production E \<and> truthy warnMissing \<and> \<not> truthy res
                   then warn (WarnResolveFailed (butlast type) name) else ret ())
                  (\<lambda>_. ret res))))))))
      | _ \<Rightarrow> ret Undefined)"

section \<open>Notions of the specification\<close>

text \<open>
  The sequence form of a hook value: a sequence stands for its elements, any other
  value for the one-element sequence that holds it.
\<close>

definition sequenceForm :: "state \<Rightarrow> val \<Rightarrow> val list" where
  "sequenceForm st v = (if isArray st v then elems st v else [v])"

definition store :: "obj list \<Rightarrow> state" where
  "store h = \<lparr>heap = h, warnings = [], registered = []\<rparr>"

text \<open>Three callables \<open>a\<close>, \<open>b\<close>, \<open>c\<close> and the sequences \<open>[a, b]\<close>, \<open>[c]\<close>, \<open>[a]\<close>.\<close>

definition hookStore :: state where
  "hookStore = store
     [function_obj (Native 0), function_obj (Native 1), function_obj (Native 2),
      array_obj [Ref 0, Ref 1], array_obj [Ref 2], array_obj [Ref 0]]"

text \<open>A plain mapping \<open>{a: 1}\<close> and a factory function.\<close>

definition dataStore :: state where
  "dataStore = store [plain_obj [(''a'', Num 1)], function_obj (Native 0)]"



text \<open>The value of a computation, without the state it ends in.\<close>

definition valueOf :: "error + ('a \<times> state) \<Rightarrow> error + 'a" where
  "valueOf r = (case r of Inl e \<Rightarrow> Inl e | Inr (x, st) \<Rightarrow> Inr x)"


section \<open>Notions used in the proofs\<close>

text \<open>
  A relation between the state before and the state after is a frame of a
  computation when every successful run is in it. A relation is admissible when it
  is a preorder and a frame of the three primitives that change the state of the
  merge engine: assignment, allocation and the diagnostic.
\<close>

definition frame :: "(state \<Rightarrow> state \<Rightarrow> bool) \<Rightarrow> 'a js \<Rightarrow> bool" where
  "frame R m = (\<forall>s x s'. m s = Inr (x, s') \<longrightarrow> R s s')"

definition admissible :: "(state \<Rightarrow> state \<Rightarrow> bool) \<Rightarrow> bool" where
  "admissible R =
     (reflp R \<and> transp R \<and> (\<forall>t k v. frame R (put t k v)) \<and> (\<forall>ob. frame R (alloc ob))
      \<and> (\<forall>w. frame R (warn w)))"

definition sameRegistered :: "state \<Rightarrow> state \<Rightarrow> bool" where
  "sameRegistered s s' = (registered s' = registered s)"

text \<open>
  What \<open>mergeData\<close> may do to the state: it allocates nothing and warns about
  nothing, every object keeps its kind and every own entry its value, and the
  registrations it adds are, each once, exactly the entries that are new.
\<close>

definition entryKey :: "val \<times> string \<times> val \<Rightarrow> val \<times> string" where
  "entryKey e = (fst e, fst (snd e))"

definition ownAt :: "state \<Rightarrow> addr \<Rightarrow> string \<Rightarrow> val option" where
  "ownAt s a k = own_get (obj_at (heap s) a) k"

definition installsOnly :: "state \<Rightarrow> state \<Rightarrow> bool" where
  "installsOnly s s' =
     (length (heap s') = length (heap s) \<and> warnings s' = warnings s
      \<and> (\<forall>a. okind (obj_at (heap s') a) = okind (obj_at (heap s) a))
      \<and> (\<forall>a k v. ownAt s a k = Some v \<longrightarrow> ownAt s' a k = Some v)
      \<and> (\<exists>new. registered s' = registered s @ new \<and> distinct (map entryKey new)
            \<and> (\<forall>t k v. (t, k, v) \<in> List.set new \<longleftrightarrow>
                  (\<exists>a. t = Ref a \<and> ownAt s a k = None \<and> ownAt s' a k = Some v))))"

definition newRegistrations :: "state \<Rightarrow> state \<Rightarrow> (val \<times> string \<times> val) list" where
  "newRegistrations s s' = drop (length (registered s)) (registered s')"

text \<open>Instance data \<open>{x: 1}\<close>, ancestor data \<open>{x: 2, y: 3}\<close> and an instance.\<close>

definition mergeStore :: state where
  "mergeStore = store
     [plain_obj [(''x'', Num 1)], plain_obj [(''x'', Num 2), (''y'', Num 3)], plain_obj []]"

definition mergedStore :: state where
  "mergedStore = \<lparr>heap =
       [plain_obj [(''x'', Num 1), (''y'', Num 3)], plain_obj [(''x'', Num 2), (''y'', Num 3)],
        plain_obj []],
     warnings = [], registered = [(Ref 0, ''y'', Num 3)]\<rparr>"

text \<open>
  An environment for the examples: a development build outside Firefox, with the
  lifecycle hooks and asset types of the framework, and caller's functions that
  return \<open>undefined\<close>.
\<close>

definition vueEnv :: env where
  "vueEnv = \<lparr>production = False,
     LIFECYCLE_HOOKS = [''beforeCreate'', ''created'', ''beforeMount'', ''mounted'',
       ''beforeUpdate'', ''updated'', ''beforeDestroy'', ''destroyed'', ''activated'',
       ''deactivated'', ''errorCaptured''],
     ASSET_TYPES = [''component'', ''directive'', ''filter''],
     nativeWatch = Undefined,
     isBuiltInTag = (\<lambda>s. s = ''slot'' \<or> s = ''component''),
     isReservedTag = (\<lambda>s. False),
     native = (\<lambda>i this. ret Undefined)\<rparr>"

text \<open>The registrations a computation ends with.\<close>

definition registrations :: "error + ('a \<times> state) \<Rightarrow> error + (val \<times> string \<times> val) list" where
  "registrations r = (case r of Inl e \<Rightarrow> Inl e | Inr (x, st) \<Rightarrow> Inr (registered st))"

text \<open>Merging the options and then calling the resolved \<open>data\<close> function on the instance.\<close>

definition mergeThenCallData :: "nat \<Rightarrow> env \<Rightarrow> val \<Rightarrow> val \<Rightarrow> val \<Rightarrow> val js" where
  "mergeThenCallData n E parent child vm =
     andThen (mergeOptions n E parent child vm) (\<lambda>options.
     andThen (get options ''data'') (\<lambda>f. call n E f vm))"

text \<open>
  Instance data \<open>{x: 1}\<close>, ancestor data \<open>{x: 2, y: 3}\<close>, an instance, and the parent and
  child configurations that carry the two data values.
\<close>

definition configStore :: state where
  "configStore = store
     [plain_obj [(''x'', Num 1)], plain_obj [(''x'', Num 2), (''y'', Num 3)], plain_obj [],
      plain_obj [(''data'', Ref 1)], plain_obj [(''data'', Ref 0)]]"

definition configResult :: state where
  "configResult = \<lparr>heap =
       [plain_obj [(''x'', Num 1)], plain_obj [(''x'', Num 2), (''y'', Num 3)], plain_obj [],
        plain_obj [(''data'', Ref 1)], plain_obj [(''data'', Ref 0), (''inject'', Ref 5)],
        plain_obj [], plain_obj [(''data'', Ref 7), (''inject'', Ref 5)],
        function_obj (MergedInstanceDataFn (Ref 1) (Ref 0) (Ref 2))],
     warnings = [], registered = []\<rparr>"

text \<open>The resolved value of one field: merging, then reading the field of the result.\<close>

definition resolvedField :: "nat \<Rightarrow> env \<Rightarrow> val \<Rightarrow> val \<Rightarrow> val \<Rightarrow> string \<Rightarrow> val js" where
  "resolvedField n E parent child vm key =
     andThen (mergeOptions n E parent child vm) (\<lambda>options. get options key)"

text \<open>
  A parent \<open>P = {a: v}\<close>, a child with the mixin list \<open>[M1, M2]\<close> and the given fields of
  its own, and the mixins \<open>M1 = {a: 1}\<close> and \<open>M2 = {a: 2}\<close>.
\<close>

definition mixinStore :: "val \<Rightarrow> (string \<times> val) list \<Rightarrow> state" where
  "mixinStore v own = store
     [plain_obj [(''a'', v)], plain_obj ((''mixins'', Ref 2) # own), array_obj [Ref 3, Ref 4],
      plain_obj [(''a'', Num 1)], plain_obj [(''a'', Num 2)]]"

text \<open>
  A computation is safe for a bound \<open>n\<close> when, started in a store of at least \<open>n\<close>
  objects, it leaves the first \<open>n\<close> objects as they are: it writes only to objects
  allocated later. A value is fresh for \<open>n\<close> when it does not refer to one of the first
  \<open>n\<close> objects.
\<close>

definition fresh :: "nat \<Rightarrow> val \<Rightarrow> bool" where
  "fresh n v = (\<forall>a. v = Ref a \<longrightarrow> n \<le> a)"

definition keeps :: "nat \<Rightarrow> state \<Rightarrow> state \<Rightarrow> bool" where
  "keeps n s s' = (length (heap s) \<le> length (heap s') \<and> (\<forall>a<n. heap s' ! a = heap s ! a))"

definition safe :: "nat \<Rightarrow> 'a js \<Rightarrow> bool" where
  "safe n m = (\<forall>s x s'. n \<le> length (heap s) \<and> m s = Inr (x, s') \<longrightarrow> keeps n s s')"

definition yields :: "nat \<Rightarrow> 'a js \<Rightarrow> ('a \<Rightarrow> bool) \<Rightarrow> bool" where
  "yields n m P = (\<forall>s x s'. n \<le> length (heap s) \<and> m s = Inr (x, s') \<longrightarrow> P x)"

text \<open>
  Notions for the construction of the result. A value is valid in a state when it
  does not refer outside the store. \<open>peek\<close> is the value that reading a property
  gives and \<open>owns\<close> the answer of the own-presence test, both in a given state.
  An entry is produced by the strategy of its field from a parent and a child value
  when some run of the strategy on these two values returns it. The fields of a
  merge are the keys of the parent followed by the keys of the child that the
  parent does not own.
\<close>

definition validVal :: "state \<Rightarrow> val \<Rightarrow> bool" where
  "validVal s v = (\<forall>a. v = Ref a \<longrightarrow> a < length (heap s))"

definition peek :: "state \<Rightarrow> val \<Rightarrow> string \<Rightarrow> val" where
  "peek s v k = (case get v k s of Inr (x, u) \<Rightarrow> x | Inl e \<Rightarrow> Undefined)"

definition owns :: "state \<Rightarrow> val \<Rightarrow> string \<Rightarrow> bool" where
  "owns s v k = (case hasOwn v k s of Inr (b, u) \<Rightarrow> b | Inl e \<Rightarrow> False)"

definition produced :: "env \<Rightarrow> val \<Rightarrow> string \<Rightarrow> val \<Rightarrow> val \<Rightarrow> val \<Rightarrow> bool" where
  "produced E vm key parentVal childVal v =
     (\<exists>s1 s2. strat E key parentVal childVal vm s1 = Inr (v, s2))"

definition fieldsOf :: "state \<Rightarrow> val \<Rightarrow> val \<Rightarrow> string list" where
  "fieldsOf s parent child =
     forInKeys s parent @ filter (\<lambda>k. \<not> owns s parent k) (forInKeys s child)"

text \<open>
  Two stores agree below \<open>n\<close> when both have the same first \<open>n\<close> objects. While the
  result object at address \<open>n\<close> is being built, the objects of the start state are
  below \<open>n\<close> and unchanged. \<open>installAll\<close> assigns a list of entries in order.
\<close>

definition sameBelow :: "nat \<Rightarrow> obj list \<Rightarrow> obj list \<Rightarrow> bool" where
  "sameBelow n h h' = (n \<le> length h \<and> n \<le> length h' \<and> (\<forall>a<n. h' ! a = h ! a))"

definition installAll :: "(string \<times> val) list \<Rightarrow> (string \<times> val) list \<Rightarrow> (string \<times> val) list" where
  "installAll ps kvs = foldl (\<lambda>ps kv. AList.update (fst kv) (snd kv) ps) ps kvs"

definition building :: "state \<Rightarrow> nat \<Rightarrow> state \<Rightarrow> bool" where
  "building st n u =
     (sameBelow n (heap st) (heap u) \<and> n < length (heap u) \<and> okind (heap u ! n) = Plain)"

text \<open>The part of \<open>normalizeInject\<close> after the new mapping is stored: it fills the mapping.\<close>

abbreviation injectEntries :: "env \<Rightarrow> val \<Rightarrow> val \<Rightarrow> unit js" where
  "injectEntries E inject normalized \<equiv> (\<lambda>st.
       if isArray st inject then
         forEach [0..<length (elems st inject)] (\<lambda>i.
           andThen (getIndex inject i) (\<lambda>name.
           case toKey name of
             None \<Rightarrow> throw OutOfModel
           | Some k \<Rightarrow>
               andThen (getIndex inject i) (\<lambda>src.
               andThen (alloc (plain_obj [(''from'', src)])) (\<lambda>d.
               put normalized k d)))) st
       else if isPlainObject st inject then
         forEach (forInKeys st inject) (\<lambda>key.
           andThen (get inject key) (\<lambda>v.
           andThen
             (\<lambda>s. if isPlainObject s v
                   then andThen (alloc (plain_obj [(''from'', Str key)]))
                          (\<lambda>d. extend_js d v) s
                   else alloc (plain_obj [(''from'', v)]) s)
             (\<lambda>d. put normalized key d))) st
       else if \<not> production E \<and> truthy inject then
         warn (WarnInvalidOption ''inject'' (toRawType st inject)) st
       else ret () st)"



text \<open>
  A state grows into another when no object is lost, every object keeps the keys it
  has and a plain object stays plain.
\<close>

definition grows :: "state \<Rightarrow> state \<Rightarrow> bool" where
  "grows s s' =
     (length (heap s) \<le> length (heap s')
      \<and> (\<forall>a<length (heap s).
            fst ` List.set (props (heap s ! a)) \<subseteq> fst ` List.set (props (heap s' ! a))
            \<and> (okind (heap s ! a) = Plain \<longrightarrow> okind (heap s' ! a) = Plain)))"

text \<open>A parent \<open>{}\<close> and a child \<open>{}\<close>: no injection is declared.\<close>

definition emptyStore :: state where
  "emptyStore = store [plain_obj [], plain_obj []]"

subsection \<open>Normalized property declarations\<close>





subsection \<open>Completion\<close>

text \<open>The object at address \<open>n\<close> exists and is a plain mapping: what the loops of
  \<open>normalizeProps\<close> keep true of the object they fill.\<close>

definition holdsPlain :: "addr \<Rightarrow> state \<Rightarrow> bool" where
  "holdsPlain n s = (n < length (heap s) \<and> okind (heap s ! n) = Plain)"



text \<open>A child whose \<open>props\<close>, \<open>inject\<close> and \<open>directives\<close> are a number, a string and a
  number.\<close>

definition malformedStore :: state where
  "malformedStore = store
     [plain_obj [],
      plain_obj [(''props'', Num 5), (''inject'', Str ''x''), (''directives'', Num 3)]]"


section \<open>Properties\<close>

subsection \<open>Frames\<close>

lemma andThen_Inr_iff:
  "andThen m f s = Inr (y, s') \<longleftrightarrow> (\<exists>x s1. m s = Inr (x, s1) \<and> f x s1 = Inr (y, s'))"
  by (auto simp: andThen_def split: sum.splits)

lemma frameI: "(\<And>s x s'. m s = Inr (x, s') \<Longrightarrow> R s s') \<Longrightarrow> frame R m"
  by (simp add: frame_def)

lemma frameD: "frame R m \<Longrightarrow> m s = Inr (x, s') \<Longrightarrow> R s s'"
  by (simp add: frame_def)

lemma frame_pure: "reflp R \<Longrightarrow> (\<And>s x s'. m s = Inr (x, s') \<Longrightarrow> s' = s) \<Longrightarrow> frame R m"
  by (auto simp: frame_def reflp_def)

lemma frame_ret: "admissible R \<Longrightarrow> frame R (ret x)"
  by (auto simp: admissible_def frame_def ret_def reflp_def)

lemma frame_throw: "frame R (throw e)"
  by (simp add: frame_def throw_def)

lemma frame_andThen:
  "admissible R \<Longrightarrow> frame R m \<Longrightarrow> (\<And>x. frame R (f x)) \<Longrightarrow> frame R (andThen m f)"
  unfolding frame_def admissible_def andThen_Inr_iff by (meson transpD)

lemma frame_forEach:
  "admissible R \<Longrightarrow> (\<And>x. frame R (f x)) \<Longrightarrow> frame R (forEach xs f)"
  by (induction xs) (auto intro: frame_ret frame_andThen)

lemma frame_if: "frame R m \<Longrightarrow> frame R m' \<Longrightarrow> frame R (if b then m else m')"
  by simp

lemma frame_if_st: "frame R m \<Longrightarrow> frame R m' \<Longrightarrow> frame R (\<lambda>s. if P s then m s else m' s)"
  by (auto simp: frame_def)

lemma frame_forEach_st:
  "admissible R \<Longrightarrow> (\<And>x. frame R (f x)) \<Longrightarrow> frame R (\<lambda>s. forEach (g s) f s)"
  using frame_forEach [of R f] by (auto simp: frame_def)

lemma frame_get: "admissible R \<Longrightarrow> frame R (get v k)"
  by (auto simp: admissible_def frame_def get_def reflp_def split: val.splits)

lemma frame_getIndex: "admissible R \<Longrightarrow> frame R (getIndex v i)"
  by (simp add: getIndex_def frame_get)

lemma frame_hasOwn: "admissible R \<Longrightarrow> frame R (hasOwn v k)"
  by (auto simp: admissible_def frame_def hasOwn_def reflp_def split: val.splits)

lemma frame_objectKeys: "admissible R \<Longrightarrow> frame R (objectKeys v)"
  by (auto simp: admissible_def frame_def objectKeys_def reflp_def split: val.splits)

lemma frame_put: "admissible R \<Longrightarrow> frame R (put t k v)"
  by (simp add: admissible_def)

lemma frame_alloc: "admissible R \<Longrightarrow> frame R (alloc ob)"
  by (simp add: admissible_def)

lemma frame_warn: "admissible R \<Longrightarrow> frame R (warn w)"
  by (simp add: admissible_def)

lemma frame_objectCreate: "admissible R \<Longrightarrow> frame R (objectCreate p)"
  by (auto simp: objectCreate_def frame_alloc frame_throw split: val.splits)

lemma frame_concat: "admissible R \<Longrightarrow> frame R (concat_js p c)"
  using frame_alloc [of R]
  by (auto simp: concat_js_def frame_def split: val.splits okind.splits if_splits)

lemmas frame_intros = frame_ret frame_throw frame_andThen frame_forEach frame_if frame_if_st
  frame_forEach_st frame_get frame_getIndex frame_hasOwn frame_objectKeys frame_put frame_alloc
  frame_warn frame_objectCreate frame_concat

lemma frame_extend: "admissible R \<Longrightarrow> frame R (extend_js to from)"
  unfolding extend_js_def
  by (rule frameI, erule frameD [rotated], intro frame_intros; assumption)

lemma frame_warn_st: "admissible R \<Longrightarrow> frame R (\<lambda>s. warn (f s) s)"
  using frame_warn [of R] by (auto simp: frame_def)

lemma frame_mergeHook: "admissible R \<Longrightarrow> frame R (mergeHook p c)"
  using frame_concat [of R p c] frame_alloc [of R "array_obj [c]"]
  by (auto simp: mergeHook_def frame_def admissible_def reflp_def split: if_splits)

lemma frame_mergeDataOrFn: "admissible R \<Longrightarrow> frame R (mergeDataOrFn p c vm)"
  unfolding mergeDataOrFn_def by (intro frame_intros; assumption)

lemma frame_strats_data: "admissible R \<Longrightarrow> frame R (strats_data E p c vm)"
  unfolding strats_data_def
  by (intro frame_intros frame_mergeDataOrFn; assumption)

lemma frame_assertObjectType: "admissible R \<Longrightarrow> frame R (assertObjectType name v vm)"
  unfolding assertObjectType_def
  by (intro frame_intros frame_warn_st; assumption)

lemma frame_mergeAssets: "admissible R \<Longrightarrow> frame R (mergeAssets E p c vm key)"
  unfolding mergeAssets_def
  by (intro frame_intros frame_extend frame_assertObjectType; assumption)

lemma frame_strats_watch: "admissible R \<Longrightarrow> frame R (strats_watch E p c vm key)"
  unfolding strats_watch_def Let_def
  by (intro frame_intros frame_extend frame_assertObjectType; assumption)

lemma frame_strats_object: "admissible R \<Longrightarrow> frame R (strats_object E p c vm key)"
  unfolding strats_object_def
  by (intro frame_intros frame_extend frame_assertObjectType; assumption)

lemma frame_strats_el: "admissible R \<Longrightarrow> frame R (strats_el p c vm key)"
  unfolding strats_el_def by (intro frame_intros; assumption)

lemma frame_strat: "admissible R \<Longrightarrow> frame R (strat E key p c vm)"
  unfolding strat_def
  by (intro frame_intros frame_mergeDataOrFn frame_strats_object frame_strats_watch
      frame_mergeAssets frame_mergeHook frame_strats_data frame_strats_el; assumption)

lemma frame_checkComponents: "admissible R \<Longrightarrow> frame R (checkComponents E options)"
  unfolding checkComponents_def Let_def
  by (intro frame_intros; assumption)

lemma frame_case_val:
  "(\<And>s. v = Str s \<Longrightarrow> frame R (f s)) \<Longrightarrow> (v \<notin> range Str \<Longrightarrow> frame R g) \<Longrightarrow>
   frame R (case v of Str s \<Rightarrow> f s | Undefined \<Rightarrow> g | Null \<Rightarrow> g | Bool b \<Rightarrow> g | Num n \<Rightarrow> g | Ref a \<Rightarrow> g)"
  by (cases v) auto

lemma frame_normalizeProps: "admissible R \<Longrightarrow> frame R (normalizeProps E options vm)"
  unfolding normalizeProps_def
  by (intro frame_intros frame_case_val frame_warn_st; assumption)

lemma frame_case_option:
  "frame R g \<Longrightarrow> (\<And>x. frame R (f x)) \<Longrightarrow> frame R (case v of None \<Rightarrow> g | Some x \<Rightarrow> f x)"
  by (cases v) auto

lemma frame_normalizeInject: "admissible R \<Longrightarrow> frame R (normalizeInject E options vm)"
  unfolding normalizeInject_def
  by (intro frame_intros frame_case_option frame_extend frame_warn_st; assumption)

lemma frame_normalizeDirectives: "admissible R \<Longrightarrow> frame R (normalizeDirectives options)"
  unfolding normalizeDirectives_def
  by (intro frame_intros; assumption)

lemma frame_mergeField: "admissible R \<Longrightarrow> frame R (mergeField E options parent child vm key)"
  unfolding mergeField_def
  by (intro frame_intros frame_strat; assumption)

lemma frame_buildOptions: "admissible R \<Longrightarrow> frame R (buildOptions E parent child vm)"
  unfolding buildOptions_def
  by (intro frame_intros frame_mergeField; assumption)

lemma frame_resolveAsset: "admissible R \<Longrightarrow> frame R (resolveAsset E options type ident w)"
proof (cases ident)
  case (Str name)
  assume "admissible R"
  then show ?thesis
    unfolding resolveAsset_def Let_def Str val.case
    by (intro frame_intros; assumption)
qed (simp_all add: resolveAsset_def frame_ret)

lemma frame_mergeMixins_step:
  assumes "admissible R" and "\<And>E parent child vm. frame R (mergeOptions n E parent child vm)"
  shows "frame R (mergeMixins (Suc n) E parent child vm is)"
proof (induction "is" arbitrary: parent)
  case Nil
  show ?case by (simp add: frame_ret assms(1))
next
  case (Cons i "is")
  show ?case
    unfolding mergeMixins.simps
    by (intro frame_intros assms Cons)
qed

lemma frame_mergeOptions_step:
  assumes "admissible R" and "\<And>E parent child vm. frame R (mergeOptions n E parent child vm)"
    and "\<And>E parent child vm is. frame R (mergeMixins n E parent child vm is)"
  shows "frame R (mergeOptions (Suc n) E parent child vm)"
  unfolding mergeOptions.simps
  by (intro frame_intros frame_case_option frame_checkComponents frame_normalizeProps
      frame_normalizeInject frame_normalizeDirectives frame_buildOptions assms)

lemma frame_mergeOptions_both:
  "admissible R \<Longrightarrow>
     (\<forall>E parent child vm. frame R (mergeOptions n E parent child vm))
     \<and> (\<forall>E parent child vm is. frame R (mergeMixins n E parent child vm is))"
proof (induction n)
  case 0
  then show ?case by (simp add: frame_throw)
next
  case (Suc n)
  then have a: "\<And>E parent child vm. frame R (mergeOptions n E parent child vm)"
    and b: "\<And>E parent child vm is. frame R (mergeMixins n E parent child vm is)"
    by blast+
  from frame_mergeOptions_step [OF Suc.prems a b] frame_mergeMixins_step [OF Suc.prems a]
  show ?case by blast
qed

lemma frame_mergeOptions: "admissible R \<Longrightarrow> frame R (mergeOptions n E parent child vm)"
  by (simp add: frame_mergeOptions_both)

lemma admissible_sameRegistered: "admissible sameRegistered"
  by (auto simp: admissible_def sameRegistered_def reflp_def transp_def frame_def put_def alloc_def
      warn_def split: val.splits option.splits if_splits)

subsection \<open>Lifecycle hooks\<close>

text \<open>
  C5, as the code has it. The child value is taken in its sequence form; the parent
  value is used as it is and has to be a sequence already (or absent). With both
  present the result is a new sequence, the parent's elements followed by the
  child's; an absent child returns the parent unchanged; with the parent absent a
  child sequence is returned itself and any other child becomes a one-element
  sequence.
\<close>

theorem mergeHook_sequences:
  "(truthy childVal \<and> isArray st parentVal \<longrightarrow>
      mergeHook parentVal childVal st =
        Inr (Ref (length (heap st)),
             st\<lparr>heap := heap st @ [array_obj (elems st parentVal @ sequenceForm st childVal)]\<rparr>))
   \<and> (\<not> truthy childVal \<longrightarrow> mergeHook parentVal childVal st = Inr (parentVal, st))
   \<and> (truthy childVal \<and> \<not> truthy parentVal \<longrightarrow>
        (if isArray st childVal then mergeHook parentVal childVal st = Inr (childVal, st)
         else mergeHook parentVal childVal st =
           Inr (Ref (length (heap st)), st\<lparr>heap := heap st @ [array_obj [childVal]]\<rparr>)))"
  by (auto simp: mergeHook_def concat_js_def alloc_def isArray_def elems_def sequenceForm_def
      split: val.splits okind.splits)

text \<open>
  The three examples of the specification: \<open>[a, b]\<close> with \<open>c\<close> gives \<open>[a, b, c]\<close>,
  an absent parent with \<open>[c]\<close> gives \<open>[c]\<close>, and \<open>[a]\<close> with an absent child gives \<open>[a]\<close>.
\<close>

theorem mergeHook_sequences_witness:
  "truthy (Ref 2) \<and> isArray hookStore (Ref 3)
   \<and> mergeHook (Ref 3) (Ref 2) hookStore =
       Inr (Ref 6, hookStore\<lparr>heap := heap hookStore @ [array_obj [Ref 0, Ref 1, Ref 2]]\<rparr>)
   \<and> \<not> truthy Undefined \<and> isArray hookStore (Ref 4)
   \<and> mergeHook Undefined (Ref 4) hookStore = Inr (Ref 4, hookStore)
   \<and> mergeHook (Ref 5) Undefined hookStore = Inr (Ref 5, hookStore)"
proof -
  have a3: "isArray hookStore (Ref 3)" and a4: "isArray hookStore (Ref 4)"
    and n2: "\<not> isArray hookStore (Ref 2)"
    by (simp_all add: isArray_def hookStore_def store_def obj_at_def array_obj_def function_obj_def)
  have e3: "elems hookStore (Ref 3) = [Ref 0, Ref 1]"
    by (simp add: elems_def hookStore_def store_def obj_at_def array_obj_def)
  have len: "length (heap hookStore) = 6"
    by (simp add: hookStore_def store_def)
  from mergeHook_sequences [where childVal = "Ref 2" and parentVal = "Ref 3" and st = hookStore] a3
  have "mergeHook (Ref 3) (Ref 2) hookStore =
      Inr (Ref (length (heap hookStore)),
           hookStore\<lparr>heap := heap hookStore @
             [array_obj (elems hookStore (Ref 3) @ sequenceForm hookStore (Ref 2))]\<rparr>)"
    by simp
  then have r1: "mergeHook (Ref 3) (Ref 2) hookStore =
      Inr (Ref 6, hookStore\<lparr>heap := heap hookStore @ [array_obj [Ref 0, Ref 1, Ref 2]]\<rparr>)"
    by (simp add: e3 len sequenceForm_def n2)
  from mergeHook_sequences [where childVal = "Ref 4" and parentVal = Undefined and st = hookStore] a4
  have r2: "mergeHook Undefined (Ref 4) hookStore = Inr (Ref 4, hookStore)"
    by simp
  from mergeHook_sequences [where childVal = Undefined and parentVal = "Ref 5" and st = hookStore]
  have r3: "mergeHook (Ref 5) Undefined hookStore = Inr (Ref 5, hookStore)"
    by simp
  from a3 a4 r1 r2 r3 show ?thesis by simp
qed

text \<open>
  A parent value that is a bare callable is not taken in its sequence form: with a
  callable child the call of \<open>parentVal.concat\<close> throws.
\<close>

theorem mergeHook_bare_parent_counterexample:
  "mergeHook (Ref 0) (Ref 1) hookStore = Inl TypeError"
  by (simp add: mergeHook_def concat_js_def isFunction_def hookStore_def store_def obj_at_def
      function_obj_def own_get_def chain_get.simps)

subsection \<open>Static merge of data and provide with one side present\<close>

text \<open>
  C4, as the code has it. In a merge without an instance where exactly one of the
  two values is present, \<open>mergeDataOrFn\<close> (the strategy of \<open>provide\<close>) returns the
  present operand itself and leaves the store as it is. The strategy of \<open>data\<close> does
  the same, except that a present child that is not a function is reported and the
  parent value returned. So the result is a function exactly when the operand is.
\<close>

theorem mergeDataOrFn_static_one_side:
  "\<not> truthy vm \<Longrightarrow> truthy parentVal \<noteq> truthy childVal \<Longrightarrow>
     mergeDataOrFn parentVal childVal vm st =
       Inr (if truthy childVal then childVal else parentVal, st)
     \<and> strat E ''provide'' parentVal childVal vm st =
       Inr (if truthy childVal then childVal else parentVal, st)
     \<and> strats_data E parentVal childVal vm st =
       (if truthy childVal \<and> \<not> isFunction st childVal
        then Inr (parentVal,
                  if production E then st
                  else st\<lparr>warnings := warnings st @ [WarnDataNotFunction]\<rparr>)
        else Inr (if truthy childVal then childVal else parentVal, st))"
  by (auto simp: mergeDataOrFn_def strats_data_def strat_def ret_def andThen_def warn_def)

theorem mergeDataOrFn_static_one_side_witness:
  "\<not> truthy Undefined \<and> truthy Undefined \<noteq> truthy (Ref 1)
   \<and> mergeDataOrFn Undefined (Ref 1) Undefined dataStore = Inr (Ref 1, dataStore)
   \<and> isFunction dataStore (Ref 1)"
proof -
  have h1: "\<not> truthy Undefined" and h2: "truthy Undefined \<noteq> truthy (Ref 1)" by simp_all
  from mergeDataOrFn_static_one_side [OF h1 h2]
  have "mergeDataOrFn Undefined (Ref 1) Undefined dataStore =
      Inr (if truthy (Ref 1) then Ref 1 else Undefined, dataStore)"
    by blast
  moreover have "isFunction dataStore (Ref 1)"
    by (simp add: isFunction_def dataStore_def store_def obj_at_def function_obj_def)
  ultimately show ?thesis by simp
qed

text \<open>
  With a plain mapping as the only operand, the result is that mapping and not a
  function.
\<close>

theorem static_plain_operand_counterexample:
  "mergeDataOrFn Undefined (Ref 0) Undefined dataStore = Inr (Ref 0, dataStore)
   \<and> \<not> isFunction dataStore (Ref 0) \<and> isPlainObject dataStore (Ref 0)"
  by (simp add: mergeDataOrFn_def ret_def isFunction_def isPlainObject_def dataStore_def store_def
      obj_at_def plain_obj_def)

subsection \<open>Assets: merge and resolution\<close>





subsection \<open>The deep data merge\<close>

lemma installsOnly_refl: "installsOnly s s"
  by (auto simp: installsOnly_def)

lemma installsOnly_trans:
  assumes "installsOnly s s1" and "installsOnly s1 s2"
  shows "installsOnly s s2"
proof -
  from assms(1) obtain new1 where
    l1: "length (heap s1) = length (heap s)" and w1: "warnings s1 = warnings s"
    and k1: "\<And>a. okind (obj_at (heap s1) a) = okind (obj_at (heap s) a)"
    and p1: "\<And>a k v. ownAt s a k = Some v \<Longrightarrow> ownAt s1 a k = Some v"
    and r1: "registered s1 = registered s @ new1" and d1: "distinct (map entryKey new1)"
    and n1: "\<And>t k v. (t, k, v) \<in> List.set new1 \<longleftrightarrow>
                  (\<exists>a. t = Ref a \<and> ownAt s a k = None \<and> ownAt s1 a k = Some v)"
    unfolding installsOnly_def by blast
  from assms(2) obtain new2 where
    l2: "length (heap s2) = length (heap s1)" and w2: "warnings s2 = warnings s1"
    and k2: "\<And>a. okind (obj_at (heap s2) a) = okind (obj_at (heap s1) a)"
    and p2: "\<And>a k v. ownAt s1 a k = Some v \<Longrightarrow> ownAt s2 a k = Some v"
    and r2: "registered s2 = registered s1 @ new2" and d2: "distinct (map entryKey new2)"
    and n2: "\<And>t k v. (t, k, v) \<in> List.set new2 \<longleftrightarrow>
                  (\<exists>a. t = Ref a \<and> ownAt s1 a k = None \<and> ownAt s2 a k = Some v)"
    unfolding installsOnly_def by blast
  have disj: "List.set (map entryKey new1) \<inter> List.set (map entryKey new2) = {}"
  proof (rule ccontr)
    assume "\<not> ?thesis"
    then obtain x where "x \<in> List.set (map entryKey new1)" "x \<in> List.set (map entryKey new2)"
      by auto
    then obtain e1 e2 where e: "e1 \<in> List.set new1" "e2 \<in> List.set new2" "entryKey e1 = entryKey e2"
      by (auto simp: image_iff)
    obtain t k v1 where e1: "e1 = (t, k, v1)" by (cases e1) auto
    with e(3) obtain v2 where e2: "e2 = (t, k, v2)" by (cases e2) (auto simp: entryKey_def)
    from e(1) e1 n1 obtain a where "t = Ref a" "ownAt s1 a k = Some v1" by blast
    moreover from e(2) e2 n2 obtain a' where "t = Ref a'" "ownAt s1 a' k = None" by blast
    ultimately show False by simp
  qed
  have mem: "(t, k, v) \<in> List.set (new1 @ new2) \<longleftrightarrow>
      (\<exists>a. t = Ref a \<and> ownAt s a k = None \<and> ownAt s2 a k = Some v)" for t k v
  proof
    assume "(t, k, v) \<in> List.set (new1 @ new2)"
    then consider "(t, k, v) \<in> List.set new1" | "(t, k, v) \<in> List.set new2" by auto
    then show "\<exists>a. t = Ref a \<and> ownAt s a k = None \<and> ownAt s2 a k = Some v"
    proof cases
      case 1
      with n1 obtain a where "t = Ref a" "ownAt s a k = None" "ownAt s1 a k = Some v" by blast
      with p2 show ?thesis by blast
    next
      case 2
      with n2 obtain a where a: "t = Ref a" "ownAt s1 a k = None" "ownAt s2 a k = Some v" by blast
      have "ownAt s a k = None"
      proof (cases "ownAt s a k")
        case (Some w)
        with p1 a(2) show ?thesis by fastforce
      qed simp
      with a show ?thesis by blast
    qed
  next
    assume "\<exists>a. t = Ref a \<and> ownAt s a k = None \<and> ownAt s2 a k = Some v"
    then obtain a where a: "t = Ref a" "ownAt s a k = None" "ownAt s2 a k = Some v" by blast
    show "(t, k, v) \<in> List.set (new1 @ new2)"
    proof (cases "ownAt s1 a k")
      case None
      with a n2 show ?thesis by auto
    next
      case (Some w)
      with p2 a(3) have "w = v" by fastforce
      with Some a n1 show ?thesis by auto
    qed
  qed
  show ?thesis
    unfolding installsOnly_def
    apply (intro conjI allI impI)
        apply (simp add: l1 l2)
       apply (simp add: w1 w2)
      apply (simp add: k1 k2)
     apply (simp add: p1 p2)
    apply (rule exI [of _ "new1 @ new2"])
    using r1 r2 d1 d2 disj mem apply auto
    done
qed

lemma get_Inr: "get v k s = Inr (x, s') \<Longrightarrow> s' = s"
  by (auto simp: get_def split: val.splits if_splits)

lemma hasOwn_Ref:
  "hasOwn (Ref t) k s = Inr (b, s') \<Longrightarrow> b = (ownAt s t k \<noteq> None) \<and> s' = s \<and> t < length (heap s)"
  by (auto simp: hasOwn_def ownAt_def split: if_splits)

lemma obj_at_update:
  "obj_at (h[t := ob]) a = (if a = t \<and> t < length h then ob else obj_at h a)"
  by (auto simp: obj_at_def)

lemma set_js_installs:
  assumes "set_js (Ref t) k v s = Inr (x, s')" and "okind (obj_at (heap s) t) = Plain"
    and "ownAt s t k = None"
  shows "installsOnly s s' \<and> ownAt s' t k = Some v"
proof -
  from assms(1) have t: "t < length (heap s)"
    by (auto simp: set_js_def put_def andThen_def split: if_splits sum.splits)
  with assms(2) have pl: "okind (heap s ! t) = Plain" by (simp add: obj_at_def)
  let ?ob = "(heap s ! t)\<lparr>props := AList.update k v (props (heap s ! t))\<rparr>"
  from assms(1) t pl have s': "s' = s\<lparr>heap := (heap s)[t := ?ob],
      registered := registered s @ [(Ref t, k, v)]\<rparr>"
    by (auto simp: set_js_def put_def andThen_def set_own_def split: if_splits sum.splits)
  have own': "ownAt s' a k' = (if a = t \<and> k' = k then Some v else ownAt s a k')" for a k'
  proof (cases "a = t")
    case True
    with t pl show ?thesis
      by (simp add: s' ownAt_def obj_at_def own_get_def update_conv')
  next
    case False
    then show ?thesis by (simp add: s' ownAt_def obj_at_def)
  qed
  have kind: "okind (obj_at (heap s') a) = okind (obj_at (heap s) a)" for a
    using t pl by (cases "a = t") (simp_all add: s' obj_at_def)
  have len: "length (heap s') = length (heap s)" and wa: "warnings s' = warnings s"
    and reg: "registered s' = registered s @ [(Ref t, k, v)]"
    by (simp_all add: s')
  have pres: "ownAt s a k' = Some w \<Longrightarrow> ownAt s' a k' = Some w" for a k' w
    using assms(3) by (auto simp: own')
  have new: "\<exists>new. registered s' = registered s @ new \<and> distinct (map entryKey new)
            \<and> (\<forall>t' k' v'. (t', k', v') \<in> List.set new \<longleftrightarrow>
                  (\<exists>a. t' = Ref a \<and> ownAt s a k' = None \<and> ownAt s' a k' = Some v'))"
    apply (rule exI [of _ "[(Ref t, k, v)]"])
    using assms(3) by (auto simp: own' reg split: if_splits)
  from len wa kind pres new show ?thesis
    unfolding installsOnly_def by (simp add: own')
qed

lemma mergeData_installs:
  "mergeData n to from s = Inr (r, s') \<Longrightarrow> isPlainObject s to \<Longrightarrow>
     r = to \<and> installsOnly s s'
     \<and> (\<forall>keys t. objectKeys from s = Inr (keys, s) \<and> truthy from \<and> to = Ref t \<longrightarrow>
           (\<forall>k\<in>List.set keys. ownAt s' t k \<noteq> None))"
proof (induction n arbitrary: to "from" s r s')
  case 0
  then show ?case by (simp add: throw_def)
next
  case (Suc n)
  show ?case
  proof (cases "truthy from")
    case False
    with Suc.prems show ?thesis by (simp add: ret_def installsOnly_refl)
  next
    case True
    from Suc.prems(2) obtain t where to: "to = Ref t" and pl: "okind (obj_at (heap s) t) = Plain"
      by (auto simp: isPlainObject_def split: val.splits okind.splits)
    define body where "body = (\<lambda>key.
             andThen (get to key) (\<lambda>toVal.
             andThen (get from key) (\<lambda>fromVal.
             andThen (hasOwn to key) (\<lambda>own.
               if \<not> own then set_js to key fromVal
               else (\<lambda>st.
                 if isPlainObject st toVal \<and> isPlainObject st fromVal
                 then andThen (mergeData n toVal fromVal) (\<lambda>_. ret ()) st
                 else ret () st)))))"
    from Suc.prems(1) True obtain keys s1 where
      ks: "objectKeys from s = Inr (keys, s1)" and
      loop: "forEach keys body s1 = Inr ((), s')" and r: "r = to"
      by (auto simp: andThen_Inr_iff ret_def body_def)
    have s1: "s1 = s" using ks by (auto simp: objectKeys_def split: val.splits if_splits)
    have step: "installsOnly u u' \<and> ownAt u' t key \<noteq> None"
      if "body key u = Inr ((), u')" and "okind (obj_at (heap u) t) = Plain" for key u u'
    proof -
      from that(1) obtain toVal u1 fromVal u2 own u3 where
        g1: "get to key u = Inr (toVal, u1)" and g2: "get from key u1 = Inr (fromVal, u2)"
        and h: "hasOwn to key u2 = Inr (own, u3)"
        and b0: "(if \<not> own then set_js to key fromVal
             else (\<lambda>st. if isPlainObject st toVal \<and> isPlainObject st fromVal
                 then andThen (mergeData n toVal fromVal) (\<lambda>_. ret ()) st
                 else ret () st)) u3 = Inr ((), u')"
        unfolding body_def andThen_Inr_iff by blast
      from g1 g2 have u12: "u1 = u" "u2 = u" by (auto dest: get_Inr)
      from h have own: "own = (ownAt u t key \<noteq> None)" and u3: "u3 = u"
        unfolding u12 to by (auto dest: hasOwn_Ref)
      from b0 have
        b: "(if ownAt u t key = None then set_js to key fromVal
             else (\<lambda>st. if isPlainObject st toVal \<and> isPlainObject st fromVal
                 then andThen (mergeData n toVal fromVal) (\<lambda>_. ret ()) st
                 else ret () st)) u = Inr ((), u')"
        unfolding own u3 by simp
      show ?thesis
      proof (cases "ownAt u t key = None")
        case True
        with b that(2) show ?thesis using set_js_installs [of t key fromVal u "()" u']
          by (simp add: to)
      next
        case False
        then obtain w where w: "ownAt u t key = Some w" by auto
        show ?thesis
        proof (cases "isPlainObject u toVal \<and> isPlainObject u fromVal")
          case True
          with b False obtain y where "mergeData n toVal fromVal u = Inr (y, u')"
            by (auto simp: andThen_Inr_iff ret_def)
          with Suc.IH True have i: "installsOnly u u'" by blast
          then have "ownAt u' t key = Some w" using w unfolding installsOnly_def by blast
          with i show ?thesis by simp
        next
          case nb: False
          with b False have "u' = u" by (auto simp: ret_def)
          with w show ?thesis by (simp add: installsOnly_refl)
        qed
      qed
    qed
    have loopinv: "installsOnly u u' \<and> (\<forall>k\<in>List.set ks. ownAt u' t k \<noteq> None)"
      if "forEach ks body u = Inr ((), u')" and "okind (obj_at (heap u) t) = Plain" for ks u u'
      using that
    proof (induction ks arbitrary: u)
      case Nil
      then show ?case by (simp add: ret_def installsOnly_refl)
    next
      case (Cons key ks)
      from Cons.prems(1) obtain u1 where
        b: "body key u = Inr ((), u1)" and rest: "forEach ks body u1 = Inr ((), u')"
        by (auto simp: andThen_Inr_iff)
      from step [OF b Cons.prems(2)] have i1: "installsOnly u u1" and o1: "ownAt u1 t key \<noteq> None"
        by simp_all
      from i1 Cons.prems(2) have pl1: "okind (obj_at (heap u1) t) = Plain"
        unfolding installsOnly_def by simp
      from Cons.IH [OF rest pl1] have i2: "installsOnly u1 u'"
        and o2: "\<forall>k\<in>List.set ks. ownAt u' t k \<noteq> None" by simp_all
      from o1 i2 have "ownAt u' t key \<noteq> None" unfolding installsOnly_def by fastforce
      with o2 installsOnly_trans [OF i1 i2] show ?case by simp
    qed
    from loopinv [OF loop [unfolded s1] pl] ks r s1 to show ?thesis by auto
  qed
qed

lemma mergeData_example:
  "mergeData 1 (Ref 0) (Ref 1) mergeStore = Inr (Ref 0, mergedStore)"
  by (simp add: mergeStore_def mergedStore_def store_def objectKeys_def andThen_def ret_def
      get_def hasOwn_def set_js_def put_def set_own_def own_get_def own_keys_def obj_at_def
      plain_obj_def chain_get.simps isPlainObject_def)



subsection \<open>When the reactive registration happens\<close>

lemma mergeOptions_config_example:
  "mergeOptions 1 vueEnv (Ref 3) (Ref 4) (Ref 2) configStore = Inr (Ref 6, configResult)"
  by code_simp

text \<open>
  C3, as the code has it. \<open>mergeOptions\<close> makes no reactive registration at all: for the
  data-bearing fields it stores a function and returns. The registration is made
  when such a function is called later: its body is the deep data merge of the
  two captured values, and that merge registers exactly the entries it newly
  introduces, each once.
\<close>

theorem registration_deferred:
  "(mergeOptions n E parent child vm st = Inr (r, st') \<longrightarrow> registered st' = registered st)
   \<and> ((okind (obj_at (heap s) f) = Function (MergedInstanceDataFn p c vm')
        \<or> okind (obj_at (heap s) f) = Function (MergedDataFn p c))
       \<and> \<not> isFunction s p \<and> \<not> isFunction s c \<and> truthy c \<longrightarrow>
         call (Suc m) E (Ref f) this s = mergeData m c p s)
   \<and> (mergeData k to src u = Inr (x, u') \<and> isPlainObject u to \<longrightarrow>
         distinct (map entryKey (newRegistrations u u'))
         \<and> (\<forall>t a v. (t, a, v) \<in> List.set (newRegistrations u u') \<longleftrightarrow>
               (\<exists>b. t = Ref b \<and> ownAt u b a = None \<and> ownAt u' b a = Some v)))"
proof (intro conjI impI)
  assume "mergeOptions n E parent child vm st = Inr (r, st')"
  with frame_mergeOptions [OF admissible_sameRegistered, of n E parent child vm]
  show "registered st' = registered st"
    by (auto simp: frame_def sameRegistered_def)
next
  assume "(okind (obj_at (heap s) f) = Function (MergedInstanceDataFn p c vm')
        \<or> okind (obj_at (heap s) f) = Function (MergedDataFn p c))
       \<and> \<not> isFunction s p \<and> \<not> isFunction s c \<and> truthy c"
  then show "call (Suc m) E (Ref f) this s = mergeData m c p s"
    by (auto simp: andThen_def ret_def)
next
  assume a: "mergeData k to src u = Inr (x, u') \<and> isPlainObject u to"
  with mergeData_installs [of k to src u x u'] have "installsOnly u u'" by blast
  then obtain new where reg: "registered u' = registered u @ new"
    and d: "distinct (map entryKey new)"
    and new: "\<And>t a v. (t, a, v) \<in> List.set new \<longleftrightarrow>
                  (\<exists>b. t = Ref b \<and> ownAt u b a = None \<and> ownAt u' b a = Some v)"
    unfolding installsOnly_def by blast
  have nr: "newRegistrations u u' = new" by (simp add: newRegistrations_def reg)
  from d show "distinct (map entryKey (newRegistrations u u'))" by (simp add: nr)
  from new show "\<forall>t a v. (t, a, v) \<in> List.set (newRegistrations u u') \<longleftrightarrow>
               (\<exists>b. t = Ref b \<and> ownAt u b a = None \<and> ownAt u' b a = Some v)"
    by (simp add: nr)
qed

theorem registration_deferred_witness:
  "mergeOptions 1 vueEnv (Ref 3) (Ref 4) (Ref 2) configStore = Inr (Ref 6, configResult)
   \<and> registered configResult = registered configStore
   \<and> okind (obj_at (heap configResult) 7) = Function (MergedInstanceDataFn (Ref 1) (Ref 0) (Ref 2))
   \<and> \<not> isFunction configResult (Ref 1) \<and> \<not> isFunction configResult (Ref 0) \<and> truthy (Ref 0)
   \<and> call (Suc 1) vueEnv (Ref 7) (Ref 2) configResult = mergeData 1 (Ref 0) (Ref 1) configResult
   \<and> mergeData 1 (Ref 0) (Ref 1) mergeStore = Inr (Ref 0, mergedStore)
   \<and> isPlainObject mergeStore (Ref 0)
   \<and> distinct (map entryKey (newRegistrations mergeStore mergedStore))
   \<and> newRegistrations mergeStore mergedStore = [(Ref 0, ''y'', Num 3)]"
proof -
  note w = registration_deferred [where n = 1 and E = vueEnv and parent = "Ref 3"
      and child = "Ref 4" and vm = "Ref 2" and st = configStore and r = "Ref 6"
      and st' = configResult and s = configResult and f = 7 and p = "Ref 1" and c = "Ref 0"
      and vm' = "Ref 2" and m = 1 and this = "Ref 2" and to = "Ref 0" and src = "Ref 1"
      and u = mergeStore and x = "Ref 0" and u' = mergedStore and k = 1]
  have k: "okind (obj_at (heap configResult) 7) =
      Function (MergedInstanceDataFn (Ref 1) (Ref 0) (Ref 2))"
    and f: "\<not> isFunction configResult (Ref 1)" "\<not> isFunction configResult (Ref 0)"
    and t: "truthy (Ref 0)"
    by (simp_all add: configResult_def obj_at_def function_obj_def isFunction_def plain_obj_def)
  have p: "isPlainObject mergeStore (Ref 0)"
    by (simp add: isPlainObject_def mergeStore_def store_def obj_at_def plain_obj_def)
  have nr: "newRegistrations mergeStore mergedStore = [(Ref 0, ''y'', Num 3)]"
    by (simp add: mergedStore_def mergeStore_def store_def newRegistrations_def)
  from w mergeOptions_config_example
  have a: "registered configResult = registered configStore"
    by blast
  from w k f t
  have b: "call (Suc 1) vueEnv (Ref 7) (Ref 2) configResult =
      mergeData 1 (Ref 0) (Ref 1) configResult"
    by blast
  from w mergeData_example p
  have c: "distinct (map entryKey (newRegistrations mergeStore mergedStore))" by blast
  from mergeOptions_config_example a k f t b mergeData_example p c nr show ?thesis
    by blast
qed

text \<open>
  An instance merge of data \<open>{x: 1}\<close> over \<open>{x: 2, y: 3}\<close>: when \<open>mergeOptions\<close> has
  returned nothing is registered, and the new key \<open>y\<close> is registered only when the
  resolved \<open>data\<close> function is called afterwards.
\<close>

theorem registration_not_before_return_counterexample:
  "registrations (mergeOptions 1 vueEnv (Ref 3) (Ref 4) (Ref 2) configStore) = Inr []
   \<and> registrations (mergeThenCallData 2 vueEnv (Ref 3) (Ref 4) (Ref 2) configStore) =
       Inr [(Ref 0, ''y'', Num 3)]"
  by code_simp

subsection \<open>Mixin order\<close>

lemmas eval_defs = resolvedField_def valueOf_def mixinStore_def store_def vueEnv_def
  andThen_def ret_def throw_def get_def getIndex_def hasOwn_def put_def alloc_def set_own_def
  own_get_def own_keys_def obj_at_def plain_obj_def array_obj_def function_obj_def
  chain_get.simps chain_keys.simps forInKeys_def isArray_def isFunction_def isPlainObject_def
  elems_def checkComponents_def normalizeProps_def normalizeInject_def normalizeDirectives_def
  mergeField_def buildOptions_def strat_def strats_object_def defaultStrat_def loopBound_def
  index_of_key_def is_digit_def toLowerCase_def toLower_def is_upper_def Let_def
  assertObjectType_def warn_def objectCreate_def extend_js_def

lemma upt_0_2: "[0..<2] = [0, Suc 0]"
  by (simp add: upt_rec)

lemma key_0_1: "key_of_index 0 = ''0''" "key_of_index (Suc 0) = ''1''"
  by code_simp+

text \<open>
  C7. With \<open>a\<close> not in the strategy table, \<open>mergeOptions(P, {mixins: [M1, M2], a: 3})\<close>
  resolves \<open>a\<close> to 3, and without \<open>a\<close> in the child to 2, whatever value \<open>P\<close> has for
  \<open>a\<close> and for every bound of the call depth from 3 on.
\<close>

theorem mixin_order_tie_break:
  "valueOf (resolvedField (Suc (Suc (Suc n))) vueEnv (Ref 0) (Ref 1) Undefined ''a''
       (mixinStore v [(''a'', Num 3)])) = Inr (Num 3)
   \<and> valueOf (resolvedField (Suc (Suc (Suc n))) vueEnv (Ref 0) (Ref 1) Undefined ''a''
       (mixinStore v [])) = Inr (Num 2)"
  by (simp add: eval_defs upt_0_2 key_0_1)

subsection \<open>Writing to new objects only\<close>

lemma keeps_refl: "keeps n s s"
  by (simp add: keeps_def)

lemma keeps_trans: "keeps n s s1 \<Longrightarrow> keeps n s1 s2 \<Longrightarrow> keeps n s s2"
  by (auto simp: keeps_def)

lemma safeD: "safe n m \<Longrightarrow> n \<le> length (heap s) \<Longrightarrow> m s = Inr (x, s') \<Longrightarrow> keeps n s s'"
  by (auto simp: safe_def)

lemma safe_ret: "safe n (ret x)"
  by (auto simp: safe_def ret_def keeps_refl)

lemma safe_throw: "safe n (throw e)"
  by (simp add: safe_def throw_def)

lemma safe_andThen_yields:
  assumes "safe n m" and "yields n m P" and "\<And>x. P x \<Longrightarrow> safe n (f x)"
  shows "safe n (andThen m f)"
  unfolding safe_def
proof (intro allI impI, elim conjE)
  fix s y s'
  assume n: "n \<le> length (heap s)" and r: "andThen m f s = Inr (y, s')"
  then obtain x s1 where m: "m s = Inr (x, s1)" and f: "f x s1 = Inr (y, s')"
    by (auto simp: andThen_Inr_iff)
  from assms(1) n m have k1: "keeps n s s1" by (rule safeD)
  with n have n1: "n \<le> length (heap s1)" by (simp add: keeps_def)
  from assms(2) n m have "P x" by (auto simp: yields_def)
  from assms(3) [OF this] n1 f have "keeps n s1 s'" by (rule safeD)
  with k1 show "keeps n s s'" by (rule keeps_trans)
qed

lemma yields_True: "yields n m (\<lambda>_. True)"
  by (simp add: yields_def)

lemma safe_andThen: "safe n m \<Longrightarrow> (\<And>x. safe n (f x)) \<Longrightarrow> safe n (andThen m f)"
  by (rule safe_andThen_yields [OF _ yields_True])

lemma safe_forEach: "(\<And>x. safe n (f x)) \<Longrightarrow> safe n (forEach xs f)"
  by (induction xs) (auto intro: safe_ret safe_andThen)

lemma safe_if: "safe n m \<Longrightarrow> safe n m' \<Longrightarrow> safe n (if b then m else m')"
  by simp

lemma safe_if_st: "safe n m \<Longrightarrow> safe n m' \<Longrightarrow> safe n (\<lambda>s. if P s then m s else m' s)"
  by (auto simp: safe_def)

lemma safe_st: "(\<And>s0. safe n (m s0)) \<Longrightarrow> safe n (\<lambda>s. m s s)"
  by (auto simp: safe_def)

lemma safe_forEach_st: "(\<And>x. safe n (f x)) \<Longrightarrow> safe n (\<lambda>s. forEach (g s) f s)"
  by (rule safe_st [where m = "\<lambda>s0. forEach (g s0) f"]) (rule safe_forEach)

lemma safe_get: "safe n (get v k)"
  by (auto simp: safe_def get_def keeps_refl split: val.splits)

lemma safe_getIndex: "safe n (getIndex v i)"
  by (simp add: getIndex_def safe_get)

lemma safe_hasOwn: "safe n (hasOwn v k)"
  by (auto simp: safe_def hasOwn_def keeps_refl split: val.splits)

lemma safe_alloc: "safe n (alloc ob)"
  by (auto simp: safe_def alloc_def keeps_def nth_append)

lemma safe_warn: "safe n (warn w)"
  by (auto simp: safe_def warn_def keeps_def)

lemma safe_warn_st: "safe n (\<lambda>s. warn (f s) s)"
  by (auto simp: safe_def warn_def keeps_def)

lemma safe_put: "fresh n t \<Longrightarrow> safe n (put t k v)"
  by (auto simp: safe_def put_def keeps_def fresh_def split: val.splits option.splits if_splits)

lemma safe_objectCreate: "safe n (objectCreate p)"
  by (auto simp: objectCreate_def safe_alloc safe_throw split: val.splits)

lemma safe_concat: "safe n (concat_js p c)"
  using safe_alloc [of n]
  by (auto simp: concat_js_def safe_def split: val.splits okind.splits if_splits)

lemma yields_alloc: "yields n (alloc ob) (fresh n)"
  by (auto simp: yields_def alloc_def fresh_def)

lemma yields_objectCreate: "yields n (objectCreate p) (fresh n)"
  using yields_alloc [of n]
  by (auto simp: objectCreate_def yields_def throw_def split: val.splits)

lemma safe_alloc_then: "(\<And>x. fresh n x \<Longrightarrow> safe n (f x)) \<Longrightarrow> safe n (andThen (alloc ob) f)"
  by (rule safe_andThen_yields [OF safe_alloc yields_alloc])

lemma safe_create_then:
  "(\<And>x. fresh n x \<Longrightarrow> safe n (f x)) \<Longrightarrow> safe n (andThen (objectCreate p) f)"
  by (rule safe_andThen_yields [OF safe_objectCreate yields_objectCreate])

lemmas safe_intros = safe_alloc_then safe_create_then safe_ret safe_throw safe_andThen
  safe_forEach safe_if safe_if_st safe_forEach_st safe_get safe_getIndex safe_hasOwn safe_alloc
  safe_warn safe_warn_st safe_put safe_objectCreate safe_concat

lemma safe_extend: "fresh n to \<Longrightarrow> safe n (extend_js to from)"
  unfolding extend_js_def
  by (rule safe_st [where m = "\<lambda>s0. andThen (forEach (forInKeys s0 from)
        (\<lambda>key. andThen (get from key) (\<lambda>v. put to key v))) (\<lambda>_. ret to)"])
    (intro safe_intros; assumption)

lemma safe_mergeHook: "safe n (mergeHook p c)"
  using safe_concat [of n p c] safe_alloc [of n "array_obj [c]"]
  by (auto simp: mergeHook_def safe_def keeps_refl split: if_splits)

lemma safe_mergeDataOrFn: "safe n (mergeDataOrFn p c vm)"
  unfolding mergeDataOrFn_def by (intro safe_intros)

lemma safe_strats_data: "safe n (strats_data E p c vm)"
  unfolding strats_data_def by (intro safe_intros safe_mergeDataOrFn)

lemma safe_assertObjectType: "safe n (assertObjectType name v vm)"
  unfolding assertObjectType_def by (intro safe_intros)

lemma safe_mergeAssets: "safe n (mergeAssets E p c vm key)"
  unfolding mergeAssets_def
  by (intro safe_intros safe_extend safe_assertObjectType; assumption)

lemma safe_strats_watch: "safe n (strats_watch E p c vm key)"
  unfolding strats_watch_def Let_def
  by (intro safe_intros safe_extend safe_assertObjectType; assumption)

lemma safe_strats_object: "safe n (strats_object E p c vm key)"
  unfolding strats_object_def
  by (intro safe_intros safe_extend safe_assertObjectType; assumption)

lemma safe_strats_el: "safe n (strats_el p c vm key)"
  unfolding strats_el_def by (intro safe_intros)

lemma safe_strat: "safe n (strat E key p c vm)"
  unfolding strat_def
  by (intro safe_intros safe_mergeDataOrFn safe_strats_object safe_strats_watch
      safe_mergeAssets safe_mergeHook safe_strats_data safe_strats_el)

lemma safe_mergeField: "fresh n options \<Longrightarrow> safe n (mergeField E options parent child vm key)"
  unfolding mergeField_def
  by (intro safe_intros safe_strat; assumption)

subsection \<open>Normalization of the injections\<close>

lemma safe_case_option:
  "safe n g \<Longrightarrow> (\<And>x. safe n (f x)) \<Longrightarrow> safe n (case v of None \<Rightarrow> g | Some x \<Rightarrow> f x)"
  by (cases v) auto

lemma safe_inject_entries:
  assumes "fresh n normalized"
  shows "safe n (injectEntries E inject normalized)"
  by (intro safe_intros safe_case_option safe_extend; (rule assms | assumption))

lemma index_of_inject: "index_of_key ''inject'' = None"
  by (simp add: index_of_key_def is_digit_def)

lemma get_Ref_valid: "get (Ref c) k s = Inr (x, s') \<Longrightarrow> c < length (heap s)"
  by (auto simp: get_def split: if_splits)

lemma put_named:
  assumes "put t k v s = Inr (x, s')" and "index_of_key k = None" and "k \<noteq> ''length''"
  shows "\<exists>c. t = Ref c \<and> c < length (heap s)
     \<and> s' = s\<lparr>heap := (heap s)[c := (heap s ! c)\<lparr>props := AList.update k v (props (heap s ! c))\<rparr>]\<rparr>"
proof -
  from assms(1) obtain c where c: "t = Ref c" by (cases t) (auto simp: put_def)
  from assms(1) c have cl: "c < length (heap s)" by (auto simp: put_def split: if_splits)
  have "set_own (heap s ! c) k v =
      Some ((heap s ! c)\<lparr>props := AList.update k v (props (heap s ! c))\<rparr>)"
    using assms(2,3) by (simp add: set_own_def split: okind.splits)
  with assms(1) c cl show ?thesis by (simp add: put_def)
qed

lemma own_get_named:
  "index_of_key k = None \<Longrightarrow> k \<noteq> ''length'' \<Longrightarrow> own_get ob k = map_of (props ob) k"
  by (simp add: own_get_def split: okind.splits)

lemma normalizeInject_installs:
  assumes "normalizeInject E options vm st = Inr (x, st')"
  shows "\<exists>c. options = Ref c \<and> c < length (heap st)
     \<and> ownAt st' c ''inject'' = Some (Ref (length (heap st)))
     \<and> length (heap st) < length (heap st')
     \<and> (\<forall>a<length (heap st). a \<noteq> c \<longrightarrow> heap st' ! a = heap st ! a)"
proof -
  let ?n = "length (heap st)"
  let ?s1 = "st\<lparr>heap := heap st @ [plain_obj []]\<rparr>"
  from assms obtain inject s0 normalized s1 u s2 where
    g: "get options ''inject'' st = Inr (inject, s0)"
    and a: "alloc (plain_obj []) s0 = Inr (normalized, s1)"
    and p: "put options ''inject'' normalized s1 = Inr (u, s2)"
    and rest: "injectEntries E inject normalized s2 = Inr (x, st')"
    unfolding normalizeInject_def andThen_Inr_iff by blast
  from g have s0: "s0 = st" by (rule get_Inr)
  from a s0 have nm: "normalized = Ref ?n" and s1: "s1 = ?s1" by (auto simp: alloc_def)
  from put_named [OF p] obtain c where c: "options = Ref c" and cl1: "c < length (heap s1)"
    and s2: "s2 = s1\<lparr>heap := (heap s1)[c := (heap s1 ! c)\<lparr>props :=
        AList.update ''inject'' normalized (props (heap s1 ! c))\<rparr>]\<rparr>"
    by (auto simp: index_of_inject)
  from g c s0 have cl: "c < ?n" by (auto dest: get_Ref_valid)
  have len2: "length (heap s2) = Suc ?n" by (simp add: s2 s1)
  have own2: "ownAt s2 c ''inject'' = Some (Ref ?n)"
    using cl by (simp add: ownAt_def obj_at_def s2 s1 nm own_get_named index_of_inject
        update_conv')
  have old2: "heap s2 ! a = heap st ! a" if "a < ?n" "a \<noteq> c" for a
    using that by (simp add: s2 s1 nth_append)
  have "fresh ?n normalized" by (simp add: fresh_def nm)
  from safeD [OF safe_inject_entries [OF this] _ rest] len2
  have k: "keeps ?n s2 st'" by simp
  with len2 cl own2 have "ownAt st' c ''inject'' = Some (Ref ?n)"
    by (simp add: keeps_def ownAt_def obj_at_def)
  moreover from k len2 have "?n < length (heap st')" by (simp add: keeps_def)
  moreover from k old2 have "\<forall>a<?n. a \<noteq> c \<longrightarrow> heap st' ! a = heap st ! a"
    by (simp add: keeps_def)
  ultimately show ?thesis using c cl by blast
qed

subsection \<open>Building the result\<close>

lemma sameBelow_obj_at: "sameBelow n h h' \<Longrightarrow> a < n \<Longrightarrow> obj_at h' a = obj_at h a"
  by (simp add: sameBelow_def obj_at_def)

lemma sameBelow_chain_get:
  "sameBelow n h h' \<Longrightarrow> a < n \<Longrightarrow> chain_get h' a k = chain_get h a k"
proof (induction a rule: less_induct)
  case (less a)
  have o: "obj_at h' a = obj_at h a" using less.prems by (rule sameBelow_obj_at)
  show ?case
    apply (subst chain_get.simps)
    apply (subst (2) chain_get.simps)
    using less by (auto simp: o split: option.splits)
qed

lemma sameBelow_chain_keys:
  "sameBelow n h h' \<Longrightarrow> a < n \<Longrightarrow> chain_keys h' a = chain_keys h a"
proof (induction a rule: less_induct)
  case (less a)
  have o: "obj_at h' a = obj_at h a" using less.prems by (rule sameBelow_obj_at)
  show ?case
    apply (subst chain_keys.simps)
    apply (subst (2) chain_keys.simps)
    using less by (auto simp: o Let_def split: option.splits)
qed

lemma old_get:
  assumes "sameBelow n (heap s) (heap u)" and "\<forall>a. v = Ref a \<longrightarrow> a < n"
    and "get v k u = Inr (x, u')"
  shows "x = peek s v k \<and> u' = u"
  using assms sameBelow_chain_get [OF assms(1)]
  by (auto simp: get_def peek_def sameBelow_def split: val.splits if_splits)

lemma old_hasOwn:
  assumes "sameBelow n (heap s) (heap u)" and "\<forall>a. v = Ref a \<longrightarrow> a < n"
    and "hasOwn v k u = Inr (b, u')"
  shows "b = owns s v k \<and> u' = u"
  using assms sameBelow_obj_at [OF assms(1)]
  by (auto simp: hasOwn_def owns_def sameBelow_def split: val.splits if_splits)

lemma old_forInKeys:
  assumes "sameBelow n (heap s) (heap u)" and "\<forall>a. v = Ref a \<longrightarrow> a < n"
  shows "forInKeys u v = forInKeys s v"
  using assms sameBelow_chain_keys [OF assms(1)]
  by (auto simp: forInKeys_def split: val.splits)

lemma mergeField_step:
  assumes b: "building st n u"
    and v: "\<forall>a. parent = Ref a \<longrightarrow> a < n" "\<forall>a. child = Ref a \<longrightarrow> a < n"
    and m: "mergeField E (Ref n) parent child vm key u = Inr (x, u')"
  shows "building st n u' \<and>
     (\<exists>v. heap u' ! n = (heap u ! n)\<lparr>props := AList.update key v (props (heap u ! n))\<rparr>
        \<and> produced E vm key (peek st parent key) (peek st child key) v)"
proof -
  from b have sb: "sameBelow n (heap st) (heap u)" and nl: "n < length (heap u)"
    and pl: "okind (heap u ! n) = Plain"
    by (simp_all add: building_def)
  from m obtain pv u1 cv u2 w u3 where
    g1: "get parent key u = Inr (pv, u1)" and g2: "get child key u1 = Inr (cv, u2)"
    and st: "strat E key pv cv vm u2 = Inr (w, u3)" and pt: "put (Ref n) key w u3 = Inr (x, u')"
    unfolding mergeField_def andThen_Inr_iff by blast
  from old_get [OF sb v(1) g1] have pv: "pv = peek st parent key" and u1: "u1 = u" by simp_all
  from old_get [OF sb v(2) g2 [unfolded u1]] have cv: "cv = peek st child key" and u2: "u2 = u"
    by simp_all
  from safeD [OF safe_strat _ st [unfolded u2], of "length (heap u)"]
  have k: "keeps (length (heap u)) u u3" by simp
  then have l3: "length (heap u) \<le> length (heap u3)"
    and o3: "\<And>a. a < length (heap u) \<Longrightarrow> heap u3 ! a = heap u ! a"
    by (simp_all add: keeps_def)
  from nl l3 have n3: "n < length (heap u3)" by simp
  from o3 [OF nl] pl have "set_own (heap u3 ! n) key w =
      Some ((heap u ! n)\<lparr>props := AList.update key w (props (heap u ! n))\<rparr>)"
    by (simp add: set_own_def)
  with pt n3 have u': "u' = u3\<lparr>heap := (heap u3)
      [n := (heap u ! n)\<lparr>props := AList.update key w (props (heap u ! n))\<rparr>]\<rparr>"
    by (simp add: put_def)
  have "sameBelow n (heap st) (heap u')"
    using sb n3 nl o3 by (auto simp: sameBelow_def u')
  moreover have "n < length (heap u')" using n3 by (simp add: u')
  moreover have hn: "heap u' ! n = (heap u ! n)\<lparr>props := AList.update key w (props (heap u ! n))\<rparr>"
    using n3 by (simp add: u')
  moreover from hn pl have "okind (heap u' ! n) = Plain" by simp
  moreover have "produced E vm key (peek st parent key) (peek st child key) w"
    unfolding produced_def using st pv cv by blast
  ultimately show ?thesis unfolding building_def by blast
qed

lemma mergeField_loop:
  assumes v: "\<forall>a. parent = Ref a \<longrightarrow> a < n" "\<forall>a. child = Ref a \<longrightarrow> a < n"
  shows "building st n u \<Longrightarrow>
     forEach ks (mergeField E (Ref n) parent child vm) u = Inr (x, u') \<Longrightarrow>
     building st n u' \<and>
     (\<exists>kvs. map fst kvs = ks
        \<and> heap u' ! n = (heap u ! n)\<lparr>props := installAll (props (heap u ! n)) kvs\<rparr>
        \<and> (\<forall>kv\<in>List.set kvs.
              produced E vm (fst kv) (peek st parent (fst kv)) (peek st child (fst kv)) (snd kv)))"
proof (induction ks arbitrary: u)
  case Nil
  then show ?case by (simp add: ret_def installAll_def)
next
  case (Cons k ks)
  from Cons.prems(2) obtain y u1 where
    m: "mergeField E (Ref n) parent child vm k u = Inr (y, u1)"
    and rest: "forEach ks (mergeField E (Ref n) parent child vm) u1 = Inr (x, u')"
    by (auto simp: andThen_Inr_iff)
  from mergeField_step [OF Cons.prems(1) v m] obtain w where
    b1: "building st n u1"
    and h1: "heap u1 ! n = (heap u ! n)\<lparr>props := AList.update k w (props (heap u ! n))\<rparr>"
    and p1: "produced E vm k (peek st parent k) (peek st child k) w"
    by blast
  from Cons.IH [OF b1 rest] obtain kvs where
    b2: "building st n u'" and ks: "map fst kvs = ks"
    and h2: "heap u' ! n = (heap u1 ! n)\<lparr>props := installAll (props (heap u1 ! n)) kvs\<rparr>"
    and p2: "\<forall>kv\<in>List.set kvs.
              produced E vm (fst kv) (peek st parent (fst kv)) (peek st child (fst kv)) (snd kv)"
    by blast
  have "heap u' ! n = (heap u ! n)\<lparr>props := installAll (props (heap u ! n)) ((k, w) # kvs)\<rparr>"
    by (simp add: h2 h1 installAll_def)
  with b2 ks p1 p2 show ?case
    by (intro conjI exI [of _ "(k, w) # kvs"]) auto
qed

lemma mergeField_loop_unowned:
  assumes v: "\<forall>a. parent = Ref a \<longrightarrow> a < n" "\<forall>a. child = Ref a \<longrightarrow> a < n"
  shows "building st n u \<Longrightarrow>
     forEach ks (\<lambda>key. andThen (hasOwn parent key) (\<lambda>own.
        if \<not> own then mergeField E (Ref n) parent child vm key else ret ())) u = Inr (x, u') \<Longrightarrow>
     building st n u' \<and>
     (\<exists>kvs. map fst kvs = filter (\<lambda>k. \<not> owns st parent k) ks
        \<and> heap u' ! n = (heap u ! n)\<lparr>props := installAll (props (heap u ! n)) kvs\<rparr>
        \<and> (\<forall>kv\<in>List.set kvs.
              produced E vm (fst kv) (peek st parent (fst kv)) (peek st child (fst kv)) (snd kv)))"
proof (induction ks arbitrary: u)
  case Nil
  then show ?case by (simp add: ret_def installAll_def)
next
  case (Cons k ks)
  let ?body = "\<lambda>key. andThen (hasOwn parent key) (\<lambda>own.
        if \<not> own then mergeField E (Ref n) parent child vm key else ret ())"
  from Cons.prems(2) obtain b u0 y u1 where
    h: "hasOwn parent k u = Inr (b, u0)"
    and m: "(if \<not> b then mergeField E (Ref n) parent child vm k else ret ()) u0 = Inr (y, u1)"
    and rest: "forEach ks ?body u1 = Inr (x, u')"
    by (auto simp: andThen_Inr_iff)
  from Cons.prems(1) have sb: "sameBelow n (heap st) (heap u)" by (simp add: building_def)
  from old_hasOwn [OF sb v(1) h] have b: "b = owns st parent k" and u0: "u0 = u" by simp_all
  show ?case
  proof (cases "owns st parent k")
    case True
    with m b u0 have "u1 = u" by (simp add: ret_def)
    with Cons.IH [OF Cons.prems(1)] rest True show ?thesis by simp
  next
    case False
    with m b u0 have m': "mergeField E (Ref n) parent child vm k u = Inr (y, u1)" by simp
    from mergeField_step [OF Cons.prems(1) v m'] obtain w where
      b1: "building st n u1"
      and h1: "heap u1 ! n = (heap u ! n)\<lparr>props := AList.update k w (props (heap u ! n))\<rparr>"
      and p1: "produced E vm k (peek st parent k) (peek st child k) w"
      by blast
    from Cons.IH [OF b1 rest] obtain kvs where
      b2: "building st n u'" and ks: "map fst kvs = filter (\<lambda>k. \<not> owns st parent k) ks"
      and h2: "heap u' ! n = (heap u1 ! n)\<lparr>props := installAll (props (heap u1 ! n)) kvs\<rparr>"
      and p2: "\<forall>kv\<in>List.set kvs.
              produced E vm (fst kv) (peek st parent (fst kv)) (peek st child (fst kv)) (snd kv)"
      by blast
    have "heap u' ! n = (heap u ! n)\<lparr>props := installAll (props (heap u ! n)) ((k, w) # kvs)\<rparr>"
      by (simp add: h2 h1 installAll_def)
    with b2 ks p1 p2 False show ?thesis
      by (intro conjI exI [of _ "(k, w) # kvs"]) auto
  qed
qed

lemma installAll_append: "installAll ps (xs @ ys) = installAll (installAll ps xs) ys"
  by (simp add: installAll_def)

lemma buildOptions_entries:
  assumes r: "buildOptions E parent child vm st = Inr (r, st')"
    and v: "validVal st parent" "validVal st child"
  shows "r = Ref (length (heap st)) \<and> building st (length (heap st)) st'
     \<and> (\<exists>kvs. map fst kvs = fieldsOf st parent child
          \<and> heap st' ! length (heap st) = plain_obj (installAll [] kvs)
          \<and> (\<forall>kv\<in>List.set kvs.
                produced E vm (fst kv) (peek st parent (fst kv)) (peek st child (fst kv))
                  (snd kv)))"
proof -
  let ?n = "length (heap st)"
  let ?s0 = "st\<lparr>heap := heap st @ [plain_obj []]\<rparr>"
  let ?body = "\<lambda>key. andThen (hasOwn parent key) (\<lambda>own.
        if \<not> own then mergeField E (Ref ?n) parent child vm key else ret ())"
  from v have v': "\<forall>a. parent = Ref a \<longrightarrow> a < ?n" "\<forall>a. child = Ref a \<longrightarrow> a < ?n"
    by (simp_all add: validVal_def)
  from r obtain x1 u1 x2 where
    l1: "forEach (forInKeys ?s0 parent) (mergeField E (Ref ?n) parent child vm) ?s0 = Inr (x1, u1)"
    and l2: "forEach (forInKeys u1 child) ?body u1 = Inr (x2, st')"
    and rr: "r = Ref ?n"
    unfolding buildOptions_def andThen_Inr_iff by (auto simp: alloc_def ret_def)
  have b0: "building st ?n ?s0"
    by (simp add: building_def sameBelow_def nth_append plain_obj_def)
  have k0: "forInKeys ?s0 parent = forInKeys st parent"
    by (rule old_forInKeys [OF _ v'(1)]) (use b0 in \<open>simp add: building_def\<close>)
  from mergeField_loop [OF v' b0 l1] obtain kvs1 where
    b1: "building st ?n u1" and ks1: "map fst kvs1 = forInKeys st parent"
    and h1: "heap u1 ! ?n = (heap ?s0 ! ?n)\<lparr>props := installAll (props (heap ?s0 ! ?n)) kvs1\<rparr>"
    and p1: "\<forall>kv\<in>List.set kvs1.
              produced E vm (fst kv) (peek st parent (fst kv)) (peek st child (fst kv)) (snd kv)"
    unfolding k0 by blast
  have k1: "forInKeys u1 child = forInKeys st child"
    by (rule old_forInKeys [OF _ v'(2)]) (use b1 in \<open>simp add: building_def\<close>)
  from mergeField_loop_unowned [OF v' b1 l2 [unfolded k1]] obtain kvs2 where
    b2: "building st ?n st'"
    and ks2: "map fst kvs2 = filter (\<lambda>k. \<not> owns st parent k) (forInKeys st child)"
    and h2: "heap st' ! ?n = (heap u1 ! ?n)\<lparr>props := installAll (props (heap u1 ! ?n)) kvs2\<rparr>"
    and p2: "\<forall>kv\<in>List.set kvs2.
              produced E vm (fst kv) (peek st parent (fst kv)) (peek st child (fst kv)) (snd kv)"
    by blast
  have "heap st' ! ?n = plain_obj (installAll [] (kvs1 @ kvs2))"
    by (simp add: h2 h1 installAll_append plain_obj_def)
  moreover have "map fst (kvs1 @ kvs2) = fieldsOf st parent child"
    by (simp add: ks1 ks2 fieldsOf_def)
  moreover from p1 p2 have "\<forall>kv\<in>List.set (kvs1 @ kvs2).
      produced E vm (fst kv) (peek st parent (fst kv)) (peek st child (fst kv)) (snd kv)"
    by auto
  ultimately show ?thesis using rr b2 by blast
qed


lemma installAll_keys:
  "List.set (map fst (installAll ps kvs)) = List.set (map fst ps) \<union> List.set (map fst kvs)"
proof (induction kvs arbitrary: ps)
  case Nil
  then show ?case by (simp add: installAll_def)
next
  case (Cons kv kvs)
  have "installAll ps (kv # kvs) = installAll (AList.update (fst kv) (snd kv) ps) kvs"
    by (simp add: installAll_def)
  then show ?case
    using Cons.IH [of "AList.update (fst kv) (snd kv) ps"]
    by (auto simp: update_keys)
qed





subsection \<open>The inject entry of the result\<close>

lemma grows_refl: "grows s s"
  by (simp add: grows_def)

lemma grows_trans:
  assumes "grows s s1" and "grows s1 s2"
  shows "grows s s2"
proof -
  from assms have l: "length (heap s) \<le> length (heap s1)" "length (heap s1) \<le> length (heap s2)"
    by (simp_all add: grows_def)
  have "fst ` List.set (props (heap s ! a)) \<subseteq> fst ` List.set (props (heap s2 ! a))
      \<and> (okind (heap s ! a) = Plain \<longrightarrow> okind (heap s2 ! a) = Plain)"
    if a: "a < length (heap s)" for a
  proof -
    from a l have a1: "a < length (heap s1)" by simp
    from assms(1) a have
      "fst ` List.set (props (heap s ! a)) \<subseteq> fst ` List.set (props (heap s1 ! a))"
      "okind (heap s ! a) = Plain \<longrightarrow> okind (heap s1 ! a) = Plain"
      by (simp_all add: grows_def)
    moreover from assms(2) a1 have
      "fst ` List.set (props (heap s1 ! a)) \<subseteq> fst ` List.set (props (heap s2 ! a))"
      "okind (heap s1 ! a) = Plain \<longrightarrow> okind (heap s2 ! a) = Plain"
      by (simp_all add: grows_def)
    ultimately show ?thesis by blast
  qed
  with l show ?thesis by (simp add: grows_def)
qed

lemma update_key_set: "fst ` List.set (AList.update k v al) = insert k (fst ` List.set al)"
proof -
  have "List.set (map fst (AList.update k v al)) = insert k (List.set (map fst al))"
    unfolding update_keys by auto
  then show ?thesis by simp
qed

lemma set_own_grows:
  assumes "set_own ob k v = Some ob'"
  shows "fst ` List.set (props ob) \<subseteq> fst ` List.set (props ob')
     \<and> (okind ob = Plain \<longrightarrow> okind ob' = Plain)"
proof -
  from assms consider
    "props ob' = props ob \<and> (okind ob = Plain \<longrightarrow> okind ob' = Plain)"
    | "props ob' = AList.update k v (props ob) \<and> okind ob' = okind ob"
    by (auto simp: set_own_def split: okind.splits if_splits option.splits)
  then show ?thesis
    by cases (simp_all add: update_key_set subset_insertI)
qed

lemma put_grows: "put t k v s = Inr (x, s') \<Longrightarrow> grows s s'"
proof -
  assume p: "put t k v s = Inr (x, s')"
  then obtain c ob where c: "t = Ref c" "c < length (heap s)"
    and so: "set_own (heap s ! c) k v = Some ob" and s': "s' = s\<lparr>heap := (heap s)[c := ob]\<rparr>"
    by (auto simp: put_def split: val.splits if_splits option.splits)
  have "fst ` List.set (props (heap s ! a)) \<subseteq> fst ` List.set (props (heap s' ! a))
      \<and> (okind (heap s ! a) = Plain \<longrightarrow> okind (heap s' ! a) = Plain)"
    if "a < length (heap s)" for a
    using set_own_grows [OF so] that by (cases "a = c") (simp_all add: s')
  then show "grows s s'" by (simp add: grows_def s')
qed

lemma admissible_grows: "admissible grows"
proof -
  have "frame grows (alloc ob)" for ob
    by (auto simp: frame_def alloc_def grows_def nth_append)
  moreover have "frame grows (warn w)" for w
    by (auto simp: frame_def warn_def grows_def)
  moreover have "frame grows (put t k v)" for t k v
    by (auto simp: frame_def intro: put_grows)
  moreover have "reflp grows" by (simp add: reflp_def grows_refl)
  moreover have "transp grows" unfolding transp_def by (blast intro: grows_trans)
  ultimately show ?thesis by (simp add: admissible_def)
qed

lemma own_key_enumerated:
  assumes "a < length h" and "k \<in> fst ` List.set (props (h ! a))"
  shows "k \<in> List.set (chain_keys h a)"
proof -
  from assms have o: "k \<in> List.set (own_keys (obj_at h a))"
    by (cases "okind (h ! a)") (simp_all add: obj_at_def own_keys_def)
  have c: "chain_keys h a =
     (let own = own_keys (obj_at h a) in
      case proto (obj_at h a) of
        Some p \<Rightarrow>
          if p < a then own @ filter (\<lambda>k. k \<notin> List.set own) (chain_keys h p) else own
      | None \<Rightarrow> own)"
    by (rule chain_keys.simps)
  show ?thesis
  proof (cases "proto (obj_at h a)")
    case None
    with o show ?thesis unfolding c by simp
  next
    case (Some p)
    with o show ?thesis unfolding c by (simp add: Let_def)
  qed
qed

lemma owns_inject_enumerated:
  assumes "owns s parent ''inject''"
  shows "''inject'' \<in> List.set (forInKeys s parent)"
proof -
  have "\<not> owns s (Str t) ''inject''" for t
    by (simp add: owns_def hasOwn_def str_get_def index_of_inject)
  with assms obtain a where a: "parent = Ref a"
    by (cases parent) (auto simp: owns_def hasOwn_def)
  from assms a have al: "a < length (heap s)"
    and o: "own_get (obj_at (heap s) a) ''inject'' \<noteq> None"
    by (auto simp: owns_def hasOwn_def split: if_splits)
  note a = a al
  from o a have "map_of (props (heap s ! a)) ''inject'' \<noteq> None"
    by (simp add: own_get_named index_of_inject obj_at_def)
  then have "''inject'' \<in> fst ` List.set (props (heap s ! a))"
    by (simp add: map_of_eq_None_iff)
  with a show ?thesis by (simp add: forInKeys_def own_key_enumerated)
qed

lemma buildOptions_owns_inject:
  assumes b: "buildOptions E parent (Ref c) vm st = Inr (r, st')"
    and v: "validVal st parent" "c < length (heap st)"
    and i: "''inject'' \<in> fst ` List.set (props (heap st ! c))"
  shows "r = Ref (length (heap st)) \<and> length (heap st) < length (heap st')
     \<and> ownAt st' (length (heap st)) ''inject'' \<noteq> None"
proof -
  let ?n = "length (heap st)"
  from buildOptions_entries [OF b v(1)] v(2) obtain kvs where
    r: "r = Ref ?n" and bd: "building st ?n st'"
    and ks: "map fst kvs = fieldsOf st parent (Ref c)"
    and h: "heap st' ! ?n = plain_obj (installAll [] kvs)"
    by (auto simp: validVal_def)
  from i v(2) have ic: "''inject'' \<in> List.set (forInKeys st (Ref c))"
    by (simp add: forInKeys_def own_key_enumerated)
  have "''inject'' \<in> List.set (fieldsOf st parent (Ref c))"
    using ic owns_inject_enumerated [of st parent] by (auto simp: fieldsOf_def)
  then have "''inject'' \<in> List.set (map fst (installAll [] kvs))"
    unfolding installAll_keys ks by simp
  then have "map_of (installAll [] kvs) ''inject'' \<noteq> None"
    by (simp add: map_of_eq_None_iff)
  with bd h have "ownAt st' ?n ''inject'' \<noteq> None"
    by (simp add: ownAt_def obj_at_def building_def plain_obj_def own_get_def)
  with r bd show ?thesis by (simp add: building_def)
qed

lemma validVal_grows: "grows s s' \<Longrightarrow> validVal s v \<Longrightarrow> validVal s' v"
  by (auto simp: grows_def validVal_def)

lemma grows_frame: "frame grows m \<Longrightarrow> m s = Inr (x, s') \<Longrightarrow> grows s s'"
  by (rule frameD)

lemma frame_mergeMixins: "admissible R \<Longrightarrow> frame R (mergeMixins n E parent child vm is)"
  by (simp add: frame_mergeOptions_both)

lemma mergeMixins_valid:
  assumes mo: "\<And>E parent child vm st r st'.
      mergeOptions n E parent child vm st = Inr (r, st') \<Longrightarrow> validVal st parent \<Longrightarrow> validVal st' r"
  shows "mergeMixins (Suc n) E parent child vm is st = Inr (r, st') \<Longrightarrow> validVal st parent \<Longrightarrow>
     validVal st' r"
proof (induction "is" arbitrary: parent st)
  case Nil
  then show ?case by (simp add: ret_def)
next
  case (Cons i "is")
  from Cons.prems(1) obtain m s1 mixin s2 p' s3 where
    g1: "get child ''mixins'' st = Inr (m, s1)" and g2: "getIndex m i s1 = Inr (mixin, s2)"
    and o: "mergeOptions n E parent mixin vm s2 = Inr (p', s3)"
    and r: "mergeMixins (Suc n) E p' child vm is s3 = Inr (r, st')"
    unfolding mergeMixins.simps andThen_Inr_iff by blast
  from g1 g2 have "s2 = st" by (auto simp: getIndex_def dest: get_Inr)
  with o Cons.prems(2) have "validVal s3 p'" by (auto intro: mo)
  with r show ?case by (rule Cons.IH)
qed

lemma mergeOptions_step_inject:
  assumes mo: "\<And>E parent child vm st r st'.
      mergeOptions n E parent child vm st = Inr (r, st') \<Longrightarrow> validVal st parent \<Longrightarrow> validVal st' r"
    and mm: "\<And>E parent child vm is st r st'.
      mergeMixins n E parent child vm is st = Inr (r, st') \<Longrightarrow> validVal st parent \<Longrightarrow> validVal st' r"
    and r: "mergeOptions (Suc n) E parent child0 vm st = Inr (r, st')"
    and v: "validVal st parent"
  shows "\<exists>a. r = Ref a \<and> a < length (heap st') \<and> ownAt st' a ''inject'' \<noteq> None"
proof -
  note ag = admissible_grows
  from r obtain x1 s1 child s2 x3 s3 x4 s4 x5 s5 extendsFrom s6 parent1 s7 mixins s8 parent2 s9
    where c1: "(if production E then ret () else checkComponents E child0) st = Inr (x1, s1)"
      and c2: "(\<lambda>st. if isFunction st child0 then get child0 ''options'' st
                 else ret child0 st) s1 = Inr (child, s2)"
      and c3: "normalizeProps E child vm s2 = Inr (x3, s3)"
      and c4: "normalizeInject E child vm s3 = Inr (x4, s4)"
      and c5: "normalizeDirectives child s4 = Inr (x5, s5)"
      and c6: "get child ''extends'' s5 = Inr (extendsFrom, s6)"
      and c7: "(if truthy extendsFrom then mergeOptions n E parent extendsFrom vm
                else ret parent) s6 = Inr (parent1, s7)"
      and c8: "get child ''mixins'' s7 = Inr (mixins, s8)"
      and c9: "(if truthy mixins then
                  andThen (get mixins ''length'') (\<lambda>l.
                    case loopBound l of
                      None \<Rightarrow> throw OutOfModel
                    | Some k \<Rightarrow> mergeMixins n E parent1 child vm [0..<k])
                else ret parent1) s8 = Inr (parent2, s9)"
      and c10: "buildOptions E parent2 child vm s9 = Inr (r, st')"
    unfolding mergeOptions.simps andThen_Inr_iff by blast
  have "frame grows (if production E then ret () else checkComponents E child0)"
    by (intro frame_intros frame_checkComponents ag)
  from frameD [OF this c1] have g1: "grows st s1" .
  have "frame grows (\<lambda>st. if isFunction st child0 then get child0 ''options'' st
                 else ret child0 st)"
    by (intro frame_intros ag)
  from frameD [OF this c2] have g2: "grows s1 s2" .
  have g3: "grows s2 s3" by (rule frameD [OF frame_normalizeProps [OF ag] c3])
  have g4: "grows s3 s4" by (rule frameD [OF frame_normalizeInject [OF ag] c4])
  have g5: "grows s4 s5" by (rule frameD [OF frame_normalizeDirectives [OF ag] c5])
  have g6: "s6 = s5" using c6 by (rule get_Inr)
  have "frame grows (if truthy extendsFrom then mergeOptions n E parent extendsFrom vm
                else ret parent)"
    by (intro frame_intros frame_mergeOptions ag)
  from frameD [OF this c7] have g7: "grows s6 s7" .
  have g8: "s8 = s7" using c8 by (rule get_Inr)
  have "frame grows (if truthy mixins then
                  andThen (get mixins ''length'') (\<lambda>l.
                    case loopBound l of
                      None \<Rightarrow> throw OutOfModel
                    | Some k \<Rightarrow> mergeMixins n E parent1 child vm [0..<k])
                else ret parent1)"
    by (intro frame_intros frame_case_option frame_mergeMixins ag)
  from frameD [OF this c9] have g9: "grows s8 s9" .
  from v g1 g2 g3 g4 g5 have v6: "validVal s6 parent"
    unfolding g6 by (blast intro: validVal_grows)
  have v7: "validVal s7 parent1"
  proof (cases "truthy extendsFrom")
    case True
    with c7 v6 show ?thesis by (auto intro: mo)
  next
    case False
    with c7 v6 show ?thesis by (simp add: ret_def)
  qed
  have v9: "validVal s9 parent2"
  proof (cases "truthy mixins")
    case True
    with c9 obtain l u k where "loopBound l = Some k"
      and "get mixins ''length'' s8 = Inr (l, u)"
      and m: "mergeMixins n E parent1 child vm [0..<k] u = Inr (parent2, s9)"
      by (auto simp: andThen_Inr_iff throw_def split: option.splits)
    then have "u = s7" unfolding g8 by (auto dest: get_Inr)
    with m v7 show ?thesis by (auto intro: mm)
  next
    case False
    with c9 v7 g8 show ?thesis by (simp add: ret_def)
  qed
  from normalizeInject_installs [OF c4] obtain c where
    ch: "child = Ref c" and c3l: "c < length (heap s3)"
    and oi: "ownAt s4 c ''inject'' = Some (Ref (length (heap s3)))"
    and l4: "length (heap s3) < length (heap s4)"
    by blast
  from c3l l4 have c4l: "c < length (heap s4)" by simp
  from oi c4l have "map_of (props (heap s4 ! c)) ''inject'' \<noteq> None"
    by (simp add: ownAt_def obj_at_def own_get_named index_of_inject)
  then have k4: "''inject'' \<in> fst ` List.set (props (heap s4 ! c))"
    by (simp add: map_of_eq_None_iff)
  have g49: "grows s4 s9"
    using g5 g7 g9 unfolding g6 g8 by (blast intro: grows_trans)
  with c4l k4 have c9l: "c < length (heap s9)"
    and k9: "''inject'' \<in> fst ` List.set (props (heap s9 ! c))"
    unfolding grows_def by auto
  from buildOptions_owns_inject [OF c10 [unfolded ch] v9 c9l k9] show ?thesis by blast
qed

lemma mergeOptions_valid_inject:
  "(\<forall>E parent child vm st r st'.
      mergeOptions n E parent child vm st = Inr (r, st') \<longrightarrow> validVal st parent \<longrightarrow>
      (\<exists>a. r = Ref a \<and> a < length (heap st') \<and> ownAt st' a ''inject'' \<noteq> None))
   \<and> (\<forall>E parent child vm is st r st'.
      mergeMixins n E parent child vm is st = Inr (r, st') \<longrightarrow> validVal st parent \<longrightarrow>
      validVal st' r)"
proof (induction n)
  case 0
  then show ?case by (simp add: throw_def)
next
  case (Suc n)
  from Suc have mo: "mergeOptions n E parent child vm st = Inr (r, st') \<Longrightarrow>
      validVal st parent \<Longrightarrow> validVal st' r" for E parent child vm st r st'
    unfolding validVal_def by blast
  from Suc have mm: "mergeMixins n E parent child vm is st = Inr (r, st') \<Longrightarrow>
      validVal st parent \<Longrightarrow> validVal st' r" for E parent child vm "is" st r st'
    by blast
  show ?case
  proof (intro conjI allI impI)
    fix E parent child vm st r st'
    assume a: "mergeOptions (Suc n) E parent child vm st = Inr (r, st')" "validVal st parent"
    show "\<exists>a. r = Ref a \<and> a < length (heap st') \<and> ownAt st' a ''inject'' \<noteq> None"
      by (rule mergeOptions_step_inject [OF _ _ a]) (blast intro: mo mm)+
  next
    fix E parent child vm "is" st r st'
    assume b: "mergeMixins (Suc n) E parent child vm is st = Inr (r, st')" "validVal st parent"
    show "validVal st' r"
      by (rule mergeMixins_valid [OF _ b]) (blast intro: mo)
  qed
qed

lemma frame_inject_entries: "admissible R \<Longrightarrow> frame R (injectEntries E inject normalized)"
  by (intro frame_intros frame_case_option frame_extend frame_warn_st; assumption)

lemma normalizeInject_plain:
  assumes "normalizeInject E options vm st = Inr (x, st')"
  shows "length (heap st) < length (heap st') \<and> okind (heap st' ! length (heap st)) = Plain"
proof -
  let ?n = "length (heap st)"
  from assms obtain inject s0 normalized s1 u s2 where
    g: "get options ''inject'' st = Inr (inject, s0)"
    and a: "alloc (plain_obj []) s0 = Inr (normalized, s1)"
    and p: "put options ''inject'' normalized s1 = Inr (u, s2)"
    and rest: "injectEntries E inject normalized s2 = Inr (x, st')"
    unfolding normalizeInject_def andThen_Inr_iff by blast
  from g have s0: "s0 = st" by (rule get_Inr)
  from a s0 have l1: "length (heap s1) = Suc ?n" and k1: "okind (heap s1 ! ?n) = Plain"
    by (auto simp: alloc_def plain_obj_def)
  from put_grows [OF p] l1 k1 have l2: "?n < length (heap s2)" and k2: "okind (heap s2 ! ?n) = Plain"
    by (auto simp: grows_def)
  from frameD [OF frame_inject_entries [OF admissible_grows] rest] l2 k2 show ?thesis
    by (auto simp: grows_def)
qed

lemma normalizeInject_undeclared:
  assumes "c < length (heap u)" and "peek u (Ref c) ''inject'' = Undefined"
  shows "normalizeInject E (Ref c) vm u =
     Inr ((), u\<lparr>heap := (heap u @ [plain_obj []])
        [c := (heap u ! c)\<lparr>props :=
           AList.update ''inject'' (Ref (length (heap u))) (props (heap u ! c))\<rparr>]\<rparr>)"
proof -
  from assms have g: "get (Ref c) ''inject'' u = Inr (Undefined, u)"
    by (simp add: peek_def get_def)
  have so: "set_own (heap u ! c) ''inject'' v =
      Some ((heap u ! c)\<lparr>props := AList.update ''inject'' v (props (heap u ! c))\<rparr>)" for v
    by (simp add: set_own_def index_of_inject split: okind.splits)
  show ?thesis
    using assms(1)
    by (simp add: normalizeInject_def andThen_def g alloc_def put_def nth_append so isArray_def
        isPlainObject_def ret_def)
qed

text \<open>
  C10. When \<open>normalizeInject\<close> returns, the child owns an \<open>inject\<close> entry that is a
  plain object allocated by this call, whatever the child declared; a child of the
  store that declares no \<open>inject\<close> gets the empty mapping, and the pass returns.
  Hence, for a parent that does not refer outside the store, every result of
  \<open>mergeOptions\<close> is an object of the store that owns an \<open>inject\<close> entry.
\<close>

theorem inject_always_present:
  "(normalizeInject E options vm st = Inr (x, st') \<longrightarrow>
      (\<exists>c. options = Ref c \<and> c < length (heap st)
         \<and> ownAt st' c ''inject'' = Some (Ref (length (heap st)))
         \<and> length (heap st) < length (heap st')
         \<and> isPlainObject st' (Ref (length (heap st)))))
   \<and> (c < length (heap u) \<and> peek u (Ref c) ''inject'' = Undefined \<longrightarrow>
      (\<exists>u'. normalizeInject E (Ref c) vm u = Inr ((), u')
         \<and> ownAt u' c ''inject'' = Some (Ref (length (heap u)))
         \<and> heap u' ! length (heap u) = plain_obj []))
   \<and> (mergeOptions n E parent child vm s = Inr (r, s') \<and> validVal s parent \<longrightarrow>
      (\<exists>a. r = Ref a \<and> a < length (heap s') \<and> ownAt s' a ''inject'' \<noteq> None))"
proof (intro conjI impI)
  assume a: "normalizeInject E options vm st = Inr (x, st')"
  from normalizeInject_installs [OF a] normalizeInject_plain [OF a]
  show "\<exists>c. options = Ref c \<and> c < length (heap st)
         \<and> ownAt st' c ''inject'' = Some (Ref (length (heap st)))
         \<and> length (heap st) < length (heap st')
         \<and> isPlainObject st' (Ref (length (heap st)))"
    by (auto simp: isPlainObject_def obj_at_def)
next
  assume a: "c < length (heap u) \<and> peek u (Ref c) ''inject'' = Undefined"
  let ?u' = "u\<lparr>heap := (heap u @ [plain_obj []])
        [c := (heap u ! c)\<lparr>props :=
           AList.update ''inject'' (Ref (length (heap u))) (props (heap u ! c))\<rparr>]\<rparr>"
  from a have "normalizeInject E (Ref c) vm u = Inr ((), ?u')"
    by (intro normalizeInject_undeclared) simp_all
  moreover from a have "ownAt ?u' c ''inject'' = Some (Ref (length (heap u)))"
    by (simp add: ownAt_def obj_at_def own_get_named index_of_inject update_conv')
  moreover from a have "heap ?u' ! length (heap u) = plain_obj []"
    by simp
  ultimately show "\<exists>u'. normalizeInject E (Ref c) vm u = Inr ((), u')
         \<and> ownAt u' c ''inject'' = Some (Ref (length (heap u)))
         \<and> heap u' ! length (heap u) = plain_obj []"
    by blast
next
  assume "mergeOptions n E parent child vm s = Inr (r, s') \<and> validVal s parent"
  with mergeOptions_valid_inject [of n]
  show "\<exists>a. r = Ref a \<and> a < length (heap s') \<and> ownAt s' a ''inject'' \<noteq> None"
    by blast
qed

lemma mergeOptions_empty_example:
  "mergeOptions (Suc 0) vueEnv (Ref 0) (Ref 1) Undefined emptyStore =
     Inr (Ref 3, store [plain_obj [], plain_obj [(''inject'', Ref 2)], plain_obj [],
                        plain_obj [(''inject'', Ref 2)]])"
  by code_simp

theorem inject_always_present_witness:
  "1 < length (heap emptyStore) \<and> peek emptyStore (Ref 1) ''inject'' = Undefined
   \<and> (\<exists>u'. normalizeInject vueEnv (Ref 1) Undefined emptyStore = Inr ((), u')
         \<and> ownAt u' 1 ''inject'' = Some (Ref 2) \<and> heap u' ! 2 = plain_obj []
         \<and> isPlainObject u' (Ref 2))
   \<and> validVal emptyStore (Ref 0)
   \<and> mergeOptions (Suc 0) vueEnv (Ref 0) (Ref 1) Undefined emptyStore =
       Inr (Ref 3, store [plain_obj [], plain_obj [(''inject'', Ref 2)], plain_obj [],
                          plain_obj [(''inject'', Ref 2)]])
   \<and> (\<exists>a. Ref 3 = Ref a
        \<and> ownAt (store [plain_obj [], plain_obj [(''inject'', Ref 2)], plain_obj [],
                         plain_obj [(''inject'', Ref 2)]]) a ''inject'' \<noteq> None)"
proof -
  have l: "1 < length (heap emptyStore)" and len: "length (heap emptyStore) = 2"
    by (simp_all add: emptyStore_def store_def)
  have p: "peek emptyStore (Ref 1) ''inject'' = Undefined"
    by (simp add: peek_def get_def emptyStore_def store_def chain_get.simps obj_at_def
        own_get_def plain_obj_def)
  have v: "validVal emptyStore (Ref 0)"
    by (simp add: validVal_def emptyStore_def store_def)
  note w = inject_always_present [where E = vueEnv and vm = Undefined and c = 1
      and u = emptyStore and n = "Suc 0" and parent = "Ref 0" and child = "Ref 1"
      and s = emptyStore and r = "Ref 3"
      and s' = "store [plain_obj [], plain_obj [(''inject'', Ref 2)], plain_obj [],
                       plain_obj [(''inject'', Ref 2)]]"]
  from w l p obtain u' where
    n: "normalizeInject vueEnv (Ref 1) Undefined emptyStore = Inr ((), u')"
    and o: "ownAt u' 1 ''inject'' = Some (Ref (length (heap emptyStore)))"
    and e: "heap u' ! length (heap emptyStore) = plain_obj []"
    by blast
  from inject_always_present [where E = vueEnv and vm = Undefined and options = "Ref 1"
      and st = emptyStore and x = "()" and st' = u'] n
  have pl: "isPlainObject u' (Ref (length (heap emptyStore)))" by blast
  from w mergeOptions_empty_example v
  have r: "\<exists>a. Ref 3 = Ref a
        \<and> ownAt (store [plain_obj [], plain_obj [(''inject'', Ref 2)], plain_obj [],
                         plain_obj [(''inject'', Ref 2)]]) a ''inject'' \<noteq> None"
    by blast
  from n o e pl have "\<exists>u'. normalizeInject vueEnv (Ref 1) Undefined emptyStore = Inr ((), u')
         \<and> ownAt u' 1 ''inject'' = Some (Ref 2) \<and> heap u' ! 2 = plain_obj []
         \<and> isPlainObject u' (Ref 2)"
    unfolding len by blast
  with l p v mergeOptions_empty_example r show ?thesis by blast
qed

subsection \<open>Normalizing normalized property declarations\<close>











subsection \<open>Which operations run to completion\<close>


lemma holdsPlain_warnings [simp]: "holdsPlain n (s\<lparr>warnings := w\<rparr>) = holdsPlain n s"
  by (simp add: holdsPlain_def)












lemma mergeOptions_malformed_example:
  "mergeOptions (Suc 0) vueEnv (Ref 0) (Ref 1) Undefined malformedStore =
     Inr (Ref 4,
       \<lparr>heap = [plain_obj [],
          plain_obj [(''props'', Ref 2), (''inject'', Ref 3), (''directives'', Num 3)],
          plain_obj [], plain_obj [],
          plain_obj [(''props'', Ref 2), (''inject'', Ref 3), (''directives'', Ref 5)],
          plain_obj []],
        warnings = [WarnInvalidOption ''props'' ''Number'',
          WarnInvalidOption ''inject'' ''String'', WarnInvalidOption ''directives'' ''Number''],
        registered = []\<rparr>)"
  by code_simp




end
